theory Spec2Isabelle
  imports Main "HOL-Library.Word" "HOL-Library.Sublist"
begin

section \<open>Application identifiers and descriptors (base/info/application.h)\<close>

type_synonym application_id_t = "32 word"

definition InvalidApplicationId :: application_id_t where
  "InvalidApplicationId = 0xFFFFFFFF"

definition MinApplicationId :: application_id_t where
  "MinApplicationId = 0"

definition MaxApplicationId :: application_id_t where
  "MaxApplicationId = InvalidApplicationId - 1"

text \<open>
  Modelled from the spec: the configuration object \<open>cfg::Application\<close> is declared in the
  configuration library, not in application.h. It is opaque here except for the
  application name it carries.
\<close>

record cfg_Application =
  cfg_Name :: string

text \<open>
  \<open>info::Application\<close>: the id, the name and the configuration. A default-constructed
  descriptor has the invalid id and an empty name.
\<close>

record Application =
  application_id :: application_id_t
  name :: string
  app_config :: "cfg_Application option"

definition IsValid :: "Application \<Rightarrow> bool" where
  "IsValid a = (application_id a \<noteq> InvalidApplicationId)"

definition GetId :: "Application \<Rightarrow> application_id_t" where
  "GetId a = application_id a"

definition GetName :: "Application \<Rightarrow> string" where
  "GetName a = name a"

text \<open>
  Modelled from the spec: the three constructors of \<open>info::Application\<close> are declared in
  application.h and defined elsewhere: invalid (singleton), name-only (id allocated, no
  config), fully configured (from parsed config).
\<close>

definition GetInvalidApplication :: Application where
  "GetInvalidApplication =
     \<lparr>application_id = InvalidApplicationId, name = [], app_config = None\<rparr>"

definition Application_of_name :: "application_id_t \<Rightarrow> string \<Rightarrow> Application" where
  "Application_of_name app_id app_name =
     \<lparr>application_id = app_id, name = app_name, app_config = None\<rparr>"

definition Application_of_config :: "application_id_t \<Rightarrow> cfg_Application \<Rightarrow> Application" where
  "Application_of_config app_id cfg =
     \<lparr>application_id = app_id, name = cfg_Name cfg, app_config = Some cfg\<rparr>"

section \<open>Modules, origins and the orchestrator state\<close>

text \<open>
  Modelled from the spec: the class \<open>Orchestrator\<close> is declared in orchestrator.h, not in
  orchestrator.cpp, with its enumeration \<open>Result\<close>, its structs \<open>Module\<close> and \<open>Origin\<close>
  and its members. The spec gives the result taxonomy
  \<open>{ Succeeded, Exists, NotExists, Failed }\<close>, the module entry \<open>{ type, ref }\<close> and the
  origin rule \<open>{ location, scheme, urlTemplates }\<close>; the field names below are the ones
  orchestrator.cpp uses.
\<close>

datatype Result = Succeeded | Failed | Exists | NotExists

text \<open>
  Modelled from the spec: the enumerations \<open>OrchestratorModuleType\<close> and \<open>ProviderType\<close>
  are declared in the headers of the module interfaces, not in orchestrator.cpp. The
  spec names the kinds Provider, Publisher and MediaRouter and the provider types Rtmp,
  Rtsp and Ovt.
\<close>

datatype OrchestratorModuleType = Provider | Publisher | MediaRouter

datatype ProviderType = Rtmp | Rtsp | Ovt

text \<open>
  A module is an object behind a shared pointer. \<open>module_ptr\<close> is the pointer's identity
  (two handles are the same module exactly when their pointers are equal), the other
  fields are the virtual methods of the module interface. A callback answers as a
  function of the arguments it is called with. \<open>GetProviderType\<close> is \<open>None\<close> for an
  object that is not a \<open>pvd::Provider\<close> (the dynamic cast gives a null pointer).
\<close>

record ModuleObject =
  module_ptr :: nat
  GetModuleType :: OrchestratorModuleType
  OnCreateApplication :: "Application \<Rightarrow> bool"
  OnDeleteApplication :: "Application \<Rightarrow> bool"
  GetProviderType :: "ProviderType option"
  PullStream :: "Application \<Rightarrow> string \<Rightarrow> string list \<Rightarrow> bool"

text \<open>The entry of the flat registry: the kind recorded at registration and the module.\<close>

record Module =
  type :: OrchestratorModuleType
  module :: ModuleObject

record Origin =
  location :: string
  scheme :: string
  url_list :: "string list"

text \<open>
  Every call into a module is recorded, in the order the orchestrator makes it, with
  the pointer of the module and the arguments of the call.
\<close>

datatype Event =
    CreateEv nat Application
  | DeleteEv nat Application
  | PullEv nat Application string "string list"

text \<open>
  The orchestrator's members. \<open>app_map\<close> is the \<open>std::map\<close> from id to descriptor, kept as
  an association list in ascending key order (the order in which the source iterates
  it). \<open>module_map\<close> is the per-kind view; a kind without an entry has the empty list.
  \<open>trace\<close> is the record of module calls.
\<close>

record Orchestrator =
  modules :: "Module list"
  module_map :: "OrchestratorModuleType \<Rightarrow> ModuleObject list"
  app_map :: "(application_id_t \<times> Application) list"
  last_application_id :: application_id_t
  origin_list :: "Origin list"
  trace :: "Event list"

subsection \<open>The operations of \<open>std::map\<close> that the orchestrator uses\<close>

definition map_find :: "(application_id_t \<times> Application) list \<Rightarrow> application_id_t \<Rightarrow> Application option" where
  "map_find m k = map_of m k"

definition map_emplace ::
  "application_id_t \<Rightarrow> Application \<Rightarrow> (application_id_t \<times> Application) list \<Rightarrow> (application_id_t \<times> Application) list" where
  "map_emplace k v m = (if map_of m k = None then insort_key fst (k, v) m else m)"

definition map_erase ::
  "application_id_t \<Rightarrow> (application_id_t \<times> Application) list \<Rightarrow> (application_id_t \<times> Application) list" where
  "map_erase k m = filter (\<lambda>p. fst p \<noteq> k) m"

section \<open>String helpers\<close>

text \<open>
  Modelled from the spec: \<open>ov::String\<close> is defined in the base library. The spec
  reads \<open>HasPrefix\<close> as a byte-prefix test, \<open>Substring(n)\<close> as the part from index \<open>n\<close>
  on, and \<open>LowerCaseString\<close> as lower-casing.
\<close>

fun HasPrefix :: "string \<Rightarrow> string \<Rightarrow> bool" where
  "HasPrefix s [] = True"
| "HasPrefix [] (p # ps) = False"
| "HasPrefix (c # s) (p # ps) = (c = p \<and> HasPrefix s ps)"

definition Substring :: "string \<Rightarrow> nat \<Rightarrow> string" where
  "Substring s n = drop n s"

definition LowerCaseChar :: "char \<Rightarrow> char" where
  "LowerCaseChar c =
     (let n = (of_char c :: nat) in if 65 \<le> n \<and> n \<le> 90 then char_of (n + 32) else c)"

definition LowerCaseString :: "string \<Rightarrow> string" where
  "LowerCaseString s = map LowerCaseChar s"

section \<open>Origin map\<close>

text \<open>
  \<open>PrepareOriginMap\<close> clears the list and appends one rule per configured origin, in
  the order of the configuration.
\<close>

definition PrepareOriginMap :: "Orchestrator \<Rightarrow> Origin list \<Rightarrow> Orchestrator" where
  "PrepareOriginMap s origins = s\<lparr>origin_list := origins\<rparr>"

text \<open>
  The inner loop of \<open>GetUrlListForLocation\<close>: for each template of the rule, in order,
  the scheme and \<open>://\<close> are put in front, the remaining part behind, and the URL is
  pushed to the caller's list.
\<close>

fun append_urls :: "Origin \<Rightarrow> string \<Rightarrow> string list \<Rightarrow> string list \<Rightarrow> string list" where
  "append_urls origin remaining_part [] out = out"
| "append_urls origin remaining_part (url # urls) out =
     append_urls origin remaining_part urls
       (out @ [scheme origin @ ''://'' @ url @ remaining_part])"

text \<open>
  The outer loop, over the rules in order: it returns at the first rule whose location
  is a prefix of the requested one. The result is the rule (\<open>None\<close> for the null
  pointer) and the caller's URL list after the call.
\<close>

fun find_origin :: "Origin list \<Rightarrow> string \<Rightarrow> string list \<Rightarrow> Origin option \<times> string list" where
  "find_origin [] loc out = (None, out)"
| "find_origin (origin # rest) loc out =
     (if HasPrefix loc (location origin)
      then (let remaining_part = Substring loc (length (location origin));
                out' = append_urls origin remaining_part (url_list origin) out
            in (if length out' > 0 then Some origin else None, out'))
      else find_origin rest loc out)"

definition GetUrlListForLocation ::
  "Orchestrator \<Rightarrow> string \<Rightarrow> string \<Rightarrow> string list \<Rightarrow> Origin option \<times> string list" where
  "GetUrlListForLocation s app_name stream_name out =
     (let loc = ''/'' @ app_name @ ''/'' @ stream_name
      in find_origin (origin_list s) loc out)"

section \<open>Module registry\<close>

text \<open>
  The argument of \<open>RegisterModule\<close> and \<open>UnregisterModule\<close> is a shared pointer: \<open>None\<close>
  is the null pointer.
\<close>

definition RegisterModule :: "Orchestrator \<Rightarrow> ModuleObject option \<Rightarrow> bool \<times> Orchestrator" where
  "RegisterModule s m_opt =
     (case m_opt of
        None \<Rightarrow> (False, s)
      | Some m \<Rightarrow>
          (let t = GetModuleType m in
           if list_ex (\<lambda>info. module_ptr (module info) = module_ptr m) (modules s)
           then (False, s)
           else (True, s\<lparr>modules := modules s @ [\<lparr>type = t, module = m\<rparr>],
                          module_map := (module_map s)(t := module_map s t @ [m])\<rparr>)))"

text \<open>
  The loop of \<open>UnregisterModule\<close>: erase the first entry whose pointer matches.
\<close>

fun erase_first :: "nat \<Rightarrow> Module list \<Rightarrow> (Module list) option" where
  "erase_first p [] = None"
| "erase_first p (info # rest) =
     (if module_ptr (module info) = p then Some rest
      else map_option (\<lambda>r. info # r) (erase_first p rest))"

text \<open>
  After erasing the entry the source only takes a reference to the per-kind list
  (\<open>auto &list = _module_map[info->type]\<close>) and logs; the list is not changed.
\<close>

definition UnregisterModule :: "Orchestrator \<Rightarrow> ModuleObject option \<Rightarrow> bool \<times> Orchestrator" where
  "UnregisterModule s m_opt =
     (case m_opt of
        None \<Rightarrow> (False, s)
      | Some m \<Rightarrow>
          (case erase_first (module_ptr m) (modules s) of
             Some ms \<Rightarrow> (True, s\<lparr>modules := ms\<rparr>)
           | None \<Rightarrow> (False, s)))"

text \<open>
  The loop of \<open>GetProviderForScheme\<close> over the flat registry: the first entry of kind
  \<open>Provider\<close> that is a \<open>pvd::Provider\<close> of the wanted type.
\<close>

fun find_provider :: "Module list \<Rightarrow> ProviderType \<Rightarrow> ModuleObject option" where
  "find_provider [] t = None"
| "find_provider (info # rest) t =
     (if type info = Provider
      then (case GetProviderType (module info) of
              None \<Rightarrow> find_provider rest t
            | Some pt \<Rightarrow> if pt = t then Some (module info) else find_provider rest t)
      else find_provider rest t)"

definition GetProviderForScheme :: "Orchestrator \<Rightarrow> string \<Rightarrow> ModuleObject option" where
  "GetProviderForScheme s sch =
     (let lower_scheme = LowerCaseString sch in
      if lower_scheme = ''rtmp'' then find_provider (modules s) Rtmp
      else if lower_scheme = ''rtsp'' then find_provider (modules s) Rtsp
      else if lower_scheme = ''ovt'' then find_provider (modules s) Ovt
      else None)"

definition GetProviderModuleForScheme :: "Orchestrator \<Rightarrow> string \<Rightarrow> ModuleObject option" where
  "GetProviderModuleForScheme s sch = GetProviderForScheme s sch"

text \<open>
  \<open>GetProviderForUrl\<close>. The URL parser \<open>ov::Url::Parse\<close> and the comparison of an
  \<open>ov::String\<close> with \<open>nullptr\<close> are defined in the base library, so both are
  parameters: \<open>Parse\<close> gives the scheme of the parsed URL, or \<open>None\<close> for the null
  pointer of a failed parse; \<open>is_nullptr\<close> is the value of \<open>url == nullptr\<close> on the
  string. The source tests the string, not the parse result, and then calls
  \<open>parsed_url->Scheme()\<close>.
\<close>

datatype error = NullPointerDereference

definition GetProviderForUrl ::
  "(string \<Rightarrow> string option) \<Rightarrow> (string \<Rightarrow> bool) \<Rightarrow> Orchestrator \<Rightarrow> string
     \<Rightarrow> error + ModuleObject option" where
  "GetProviderForUrl Parse is_nullptr s url =
     (let parsed_url = Parse url in
      if is_nullptr url then Inr None
      else (case parsed_url of
              None \<Rightarrow> Inl NullPointerDereference
            | Some parsed_scheme \<Rightarrow> Inr (GetProviderForScheme s parsed_scheme)))"

section \<open>Application table\<close>

text \<open>
  The loop of \<open>GetNextAppId\<close> has no exit but the \<open>return\<close>: a call that does not
  return is \<open>None\<close>.
\<close>

partial_function (option) GetNextAppId :: "Orchestrator \<Rightarrow> (application_id_t \<times> Orchestrator) option" where
  "GetNextAppId s =
     (let s1 = s\<lparr>last_application_id := last_application_id s + 1\<rparr>;
          s2 = (if last_application_id s1 = MaxApplicationId
                then s1\<lparr>last_application_id := MinApplicationId\<rparr> else s1)
      in if map_find (app_map s2) (last_application_id s2) = None
         then Some (last_application_id s2, s2)
         else GetNextAppId s2)"

text \<open>
  The creation fan-out of \<open>CreateApplicationInternal\<close>: the modules in registration
  order, stopping at the first that answers false. (The source also collects the
  modules that answered true in a local list that it never reads.)
\<close>

fun notify_create :: "Module list \<Rightarrow> Application \<Rightarrow> Event list \<Rightarrow> bool \<times> Event list" where
  "notify_create [] app_info tr = (True, tr)"
| "notify_create (m # ms) app_info tr =
     (if OnCreateApplication (module m) app_info
      then notify_create ms app_info (tr @ [CreateEv (module_ptr (module m)) app_info])
      else (False, tr @ [CreateEv (module_ptr (module m)) app_info]))"

text \<open>
  The deletion fan-out: every module is called; one answer of false makes the result
  \<open>Failed\<close>.
\<close>

fun NotifyModulesForDeleteEvent ::
  "Module list \<Rightarrow> Application \<Rightarrow> Result \<Rightarrow> Event list \<Rightarrow> Result \<times> Event list" where
  "NotifyModulesForDeleteEvent [] app_info result tr = (result, tr)"
| "NotifyModulesForDeleteEvent (m # ms) app_info result tr =
     NotifyModulesForDeleteEvent ms app_info
       (if OnDeleteApplication (module m) app_info = False then Failed else result)
       (tr @ [DeleteEv (module_ptr (module m)) app_info])"

text \<open>
  \<open>DeleteApplicationInternal\<close>, by id; the overload that takes a descriptor passes its
  id.
\<close>

definition DeleteApplicationInternal :: "Orchestrator \<Rightarrow> application_id_t \<Rightarrow> Result \<times> Orchestrator" where
  "DeleteApplicationInternal s app_id =
     (case map_find (app_map s) app_id of
        None \<Rightarrow> (NotExists, s)
      | Some app_info \<Rightarrow>
          (let s1 = s\<lparr>app_map := map_erase app_id (app_map s)\<rparr>;
               (result, tr) = NotifyModulesForDeleteEvent (modules s1) app_info Succeeded (trace s1)
           in (result, s1\<lparr>trace := tr\<rparr>)))"

text \<open>
  \<open>CreateApplicationInternal\<close>, on a descriptor: on a refused creation it returns what
  \<open>DeleteApplicationInternal\<close> returns.
\<close>

definition CreateApplicationInternal :: "Orchestrator \<Rightarrow> Application \<Rightarrow> Result \<times> Orchestrator" where
  "CreateApplicationInternal s app_info =
     (if list_ex (\<lambda>app. GetName (snd app) = GetName app_info) (app_map s)
      then (Exists, s)
      else (let s1 = s\<lparr>app_map := map_emplace (GetId app_info) app_info (app_map s)\<rparr>;
                (succeeded, tr) = notify_create (modules s1) app_info (trace s1);
                s2 = s1\<lparr>trace := tr\<rparr>
            in if succeeded then (Succeeded, s2)
               else DeleteApplicationInternal s2 (GetId app_info)))"

text \<open>
  The overload that takes a name: it allocates the id, writes the descriptor through
  the pointer and creates. The descriptor is returned with the result.
\<close>

definition CreateApplicationInternal_name ::
  "Orchestrator \<Rightarrow> string \<Rightarrow> ((Result \<times> Application) \<times> Orchestrator) option" where
  "CreateApplicationInternal_name s app_name =
     (case GetNextAppId s of
        None \<Rightarrow> None
      | Some (app_id, s1) \<Rightarrow>
          (let app_info = Application_of_name app_id app_name;
               (result, s2) = CreateApplicationInternal s1 app_info
           in Some ((result, app_info), s2)))"

text \<open>
  The public operations. The locks they take are not modelled: the operations run one
  after the other.
\<close>

definition CreateApplication :: "Orchestrator \<Rightarrow> cfg_Application \<Rightarrow> (Result \<times> Orchestrator) option" where
  "CreateApplication s app_cfg =
     (case GetNextAppId s of
        None \<Rightarrow> None
      | Some (app_id, s1) \<Rightarrow>
          Some (CreateApplicationInternal s1 (Application_of_config app_id app_cfg)))"

definition DeleteApplication :: "Orchestrator \<Rightarrow> Application \<Rightarrow> Result \<times> Orchestrator" where
  "DeleteApplication s app_info = DeleteApplicationInternal s (GetId app_info)"

definition GetApplicationInternal :: "Orchestrator \<Rightarrow> string \<Rightarrow> Application" where
  "GetApplicationInternal s app_name =
     (case List.find (\<lambda>app. GetName (snd app) = app_name) (app_map s) of
        Some app \<Rightarrow> snd app
      | None \<Rightarrow> GetInvalidApplication)"

definition GetApplication :: "Orchestrator \<Rightarrow> string \<Rightarrow> Application" where
  "GetApplication s app_name = GetApplicationInternal s app_name"

definition GetApplicationInternal_id :: "Orchestrator \<Rightarrow> application_id_t \<Rightarrow> Application" where
  "GetApplicationInternal_id s app_id =
     (case map_find (app_map s) app_id of
        Some app \<Rightarrow> app
      | None \<Rightarrow> GetInvalidApplication)"

definition GetApplication_id :: "Orchestrator \<Rightarrow> application_id_t \<Rightarrow> Application" where
  "GetApplication_id s app_id = GetApplicationInternal_id s app_id"

section \<open>Pull coordinator\<close>

text \<open>
  The tail of \<open>RequestPullStreamForLocation\<close>, from the call of \<open>PullStream\<close> on, with the
  result of the application step in \<open>result\<close>.
\<close>

definition pull_and_rollback ::
  "Orchestrator \<Rightarrow> ModuleObject \<Rightarrow> Result \<Rightarrow> Application \<Rightarrow> string \<Rightarrow> string list
     \<Rightarrow> bool \<times> Orchestrator" where
  "pull_and_rollback s provider_module result app_info stream_name urls =
     (let s1 = s\<lparr>trace := trace s @ [PullEv (module_ptr provider_module) app_info stream_name urls]\<rparr>
      in if PullStream provider_module app_info stream_name urls then (True, s1)
         else (case result of
                 Failed \<Rightarrow> (False, s1)
               | NotExists \<Rightarrow> (False, s1)
               | Succeeded \<Rightarrow> (False, snd (DeleteApplicationInternal s1 (GetId app_info)))
               | Exists \<Rightarrow> (False, s1)))"

definition RequestPullStreamForLocation ::
  "Orchestrator \<Rightarrow> string \<Rightarrow> string \<Rightarrow> (bool \<times> Orchestrator) option" where
  "RequestPullStreamForLocation s app_name stream_name =
     (case GetUrlListForLocation s app_name stream_name [] of
        (None, urls) \<Rightarrow> Some (False, s)
      | (Some origin, urls) \<Rightarrow>
          (case GetProviderModuleForScheme s (scheme origin) of
             None \<Rightarrow> Some (False, s)
           | Some provider_module \<Rightarrow>
               (let app_info = GetApplicationInternal s app_name in
                if IsValid app_info
                then Some (pull_and_rollback s provider_module Exists app_info stream_name urls)
                else (case CreateApplicationInternal_name s app_name of
                        None \<Rightarrow> None
                      | Some ((result, app_info'), s1) \<Rightarrow>
                          if result = Failed \<or> result \<noteq> Succeeded then Some (False, s1)
                          else Some (pull_and_rollback s1 provider_module result app_info'
                                       stream_name urls)))))"

definition RequestPullStream ::
  "Orchestrator \<Rightarrow> string \<Rightarrow> string \<Rightarrow> (bool \<times> Orchestrator) option" where
  "RequestPullStream s application stream = RequestPullStreamForLocation s application stream"

section \<open>Notions for the statements\<close>

text \<open>
  One turn of the loop of \<open>GetNextAppId\<close> on the counter: the increment (which wraps
  at \<open>2^32\<close>, the counter being unsigned) and the reset at \<open>MaxApplicationId\<close>.
\<close>

definition advance_id :: "application_id_t \<Rightarrow> application_id_t" where
  "advance_id c = (if c + 1 = MaxApplicationId then MinApplicationId else c + 1)"

text \<open>
  The calls of \<open>OnCreateApplication\<close> that one creation makes: the modules in
  registration order, up to and including the first that answers false.
\<close>

definition create_events :: "Module list \<Rightarrow> Application \<Rightarrow> Event list" where
  "create_events ms a =
     map (\<lambda>m. CreateEv (module_ptr (module m)) a)
       (take (Suc (length (takeWhile (\<lambda>m. OnCreateApplication (module m) a) ms))) ms)"

text \<open>
  The calls of \<open>OnDeleteApplication\<close> that one deletion makes: every module, in
  registration order.
\<close>

definition delete_events :: "Module list \<Rightarrow> Application \<Rightarrow> Event list" where
  "delete_events ms a = map (\<lambda>m. DeleteEv (module_ptr (module m)) a) ms"

text \<open>
  The orchestrator before any operation: every container is empty. The initial value of
  \<open>_last_application_id\<close> is set in orchestrator.h, not in orchestrator.cpp, so it is
  a parameter.
\<close>

definition initial_orchestrator :: "application_id_t \<Rightarrow> Orchestrator" where
  "initial_orchestrator c0 =
     \<lparr>modules = [], module_map = (\<lambda>t. []), app_map = [], last_application_id = c0,
      origin_list = [], trace = []\<rparr>"

text \<open>
  The public operations with their arguments, and the state after a sequence of them.
  \<open>None\<close> is a call that does not return (the loop of \<open>GetNextAppId\<close> on a table that
  has no free id).
\<close>

datatype Operation =
    OpPrepareOriginMap "Origin list"
  | OpRegisterModule "ModuleObject option"
  | OpUnregisterModule "ModuleObject option"
  | OpCreateApplication cfg_Application
  | OpDeleteApplication Application
  | OpGetApplication string
  | OpGetApplication_id application_id_t
  | OpRequestPullStream string string

fun run_op :: "Orchestrator \<Rightarrow> Operation \<Rightarrow> Orchestrator option" where
  "run_op s (OpPrepareOriginMap origins) = Some (PrepareOriginMap s origins)"
| "run_op s (OpRegisterModule m) = Some (snd (RegisterModule s m))"
| "run_op s (OpUnregisterModule m) = Some (snd (UnregisterModule s m))"
| "run_op s (OpCreateApplication app_cfg) = map_option snd (CreateApplication s app_cfg)"
| "run_op s (OpDeleteApplication app_info) = Some (snd (DeleteApplication s app_info))"
| "run_op s (OpGetApplication app_name) = Some s"
| "run_op s (OpGetApplication_id app_id) = Some s"
| "run_op s (OpRequestPullStream application stream) =
     map_option snd (RequestPullStream s application stream)"

fun run_ops :: "Orchestrator \<Rightarrow> Operation list \<Rightarrow> Orchestrator option" where
  "run_ops s [] = Some s"
| "run_ops s (operation # rest) =
     (case run_op s operation of None \<Rightarrow> None | Some s' \<Rightarrow> run_ops s' rest)"

text \<open>
  How one operation can change the table and the counter: the counter stays or moves
  to a value other than \<open>MaxApplicationId\<close>; the table stays, loses one key, or gains
  one descriptor under its own id, which was free and is not \<open>MaxApplicationId\<close>, with
  a name that was not in the table.
\<close>

definition table_step :: "Orchestrator \<Rightarrow> Orchestrator \<Rightarrow> bool" where
  "table_step s s' \<longleftrightarrow>
     (last_application_id s' = last_application_id s \<or> last_application_id s' \<noteq> MaxApplicationId) \<and>
     (app_map s' = app_map s \<or>
      (\<exists>k. app_map s' = map_erase k (app_map s)) \<or>
      (\<exists>a. app_map s' = map_emplace (application_id a) a (app_map s) \<and>
           map_find (app_map s) (application_id a) = None \<and>
           application_id a \<noteq> MaxApplicationId \<and>
           (last_application_id s \<noteq> MaxApplicationId \<longrightarrow> application_id a \<noteq> InvalidApplicationId) \<and>
           \<not> list_ex (\<lambda>app. name (snd app) = name a) (app_map s)))"

text \<open>
  The invariant of the table: no key is the invalid id, every descriptor is stored
  under its own id, and neither a key nor a name occurs twice.
\<close>

definition table_ok :: "(application_id_t \<times> Application) list \<Rightarrow> bool" where
  "table_ok m \<longleftrightarrow>
     list_all (\<lambda>p. fst p \<noteq> InvalidApplicationId \<and> application_id (snd p) = fst p) m \<and>
     distinct (map fst m) \<and> distinct (map (\<lambda>p. name (snd p)) m)"

section \<open>Example configurations\<close>

text \<open>
  A module whose callbacks answer with fixed values; a module of kind \<open>Provider\<close> is
  an \<open>Ovt\<close> provider.
\<close>

definition mock_module :: "nat \<Rightarrow> OrchestratorModuleType \<Rightarrow> bool \<Rightarrow> bool \<Rightarrow> bool \<Rightarrow> ModuleObject" where
  "mock_module p t create_ok delete_ok pull_ok =
     \<lparr>module_ptr = p, GetModuleType = t,
      OnCreateApplication = (\<lambda>app_info. create_ok),
      OnDeleteApplication = (\<lambda>app_info. delete_ok),
      GetProviderType = (if t = Provider then Some Ovt else None),
      PullStream = (\<lambda>app_info stream_name urls. pull_ok)\<rparr>"

text \<open>
  The table that holds an application under every id from \<open>0\<close> to \<open>2^32 - 3\<close>, with
  pairwise different names: \<open>MaxApplicationId\<close> applications.
\<close>

definition full_table :: "(application_id_t \<times> Application) list" where
  "full_table =
     map (\<lambda>n. (of_nat n, Application_of_name (of_nat n) (replicate n (CHR ''a''))))
       [0..<4294967294]"

text \<open>
  A counter near the maximum and a table that holds the ids around the wrap.
\<close>

definition near_max_state :: Orchestrator where
  "near_max_state =
     (initial_orchestrator 0xFFFFFFFC)
       \<lparr>app_map := [(0, Application_of_name 0 ''a''), (1, Application_of_name 1 ''b''),
                    (0xFFFFFFFD, Application_of_name 0xFFFFFFFD ''c'')]\<rparr>"

text \<open>
  The configuration of an application named \<open>live\<close>.
\<close>

definition live_cfg :: cfg_Application where
  "live_cfg = \<lparr>cfg_Name = ''live''\<rparr>"

text \<open>
  A run that registers one module and creates two applications.
\<close>

definition two_apps :: "Operation list" where
  "two_apps =
     [OpRegisterModule (Some (mock_module 1 Provider True True True)),
      OpCreateApplication live_cfg,
      OpCreateApplication \<lparr>cfg_Name = ''vod''\<rparr>]"

text \<open>
  Two registered modules; the second refuses every creation, both accept every deletion.
\<close>

definition two_modules :: Orchestrator where
  "two_modules =
     snd (RegisterModule
            (snd (RegisterModule (initial_orchestrator 0) (Some (mock_module 1 Provider True True True))))
            (Some (mock_module 2 Publisher False True True)))"

text \<open>
  An origin rule whose location is a prefix of every location.
\<close>

definition catch_all_rule :: Origin where
  "catch_all_rule = \<lparr>location = ''/'', scheme = ''ovt'', url_list = [''origin.example:9000/'']\<rparr>"

text \<open>
  One rule that matches every location and one provider that accepts creations and
  deletions and refuses every pull; without an application, and with \<open>live\<close>.
\<close>

definition refusing_state :: Orchestrator where
  "refusing_state =
     snd (RegisterModule (PrepareOriginMap (initial_orchestrator 0) [catch_all_rule])
            (Some (mock_module 1 Provider True True False)))"

definition refusing_live_state :: Orchestrator where
  "refusing_live_state =
     refusing_state\<lparr>app_map := [(1, Application_of_config 1 live_cfg)], last_application_id := 1\<rparr>"

text \<open>
  The rule and the orchestrator of the spec's first scenario: the provider accepts
  everything.
\<close>

definition splice_rule :: Origin where
  "splice_rule =
     \<lparr>location = ''/app/stream'', scheme = ''ovt'', url_list = [''origin.example:9000/another/and'']\<rparr>"

definition splice_state :: Orchestrator where
  "splice_state =
     snd (RegisterModule (PrepareOriginMap (initial_orchestrator 0) [splice_rule])
            (Some (mock_module 1 Provider True True True)))"

text \<open>
  A rule without URL templates.
\<close>

definition empty_rule :: Origin where
  "empty_rule = \<lparr>location = ''/app'', scheme = ''ovt'', url_list = []\<rparr>"

text \<open>
  One provider registered, and the same provider unregistered again.
\<close>

definition registered_once :: Orchestrator where
  "registered_once =
     snd (RegisterModule (initial_orchestrator 0) (Some (mock_module 1 Provider True True True)))"

definition unregistered :: Orchestrator where
  "unregistered =
     snd (UnregisterModule registered_once (Some (mock_module 1 Provider True True True)))"

section \<open>The id allocator\<close>

lemma GetNextAppId_unfold:
  "GetNextAppId s =
     (if map_find (app_map s) (advance_id (last_application_id s)) = None
      then Some (advance_id (last_application_id s),
                 s\<lparr>last_application_id := advance_id (last_application_id s)\<rparr>)
      else GetNextAppId (s\<lparr>last_application_id := advance_id (last_application_id s)\<rparr>))"
  by (subst GetNextAppId.simps) (auto simp add: advance_id_def Let_def)

lemma advance_id_not_Max: "advance_id c \<noteq> MaxApplicationId"
  by (simp add: advance_id_def MaxApplicationId_def MinApplicationId_def InvalidApplicationId_def)

lemma GetNextAppId_Some:
  assumes "GetNextAppId s = Some r"
  shows "map_find (app_map s) (fst r) = None \<and> fst r \<noteq> MaxApplicationId \<and>
     snd r = s\<lparr>last_application_id := fst r\<rparr> \<and>
     (last_application_id s \<noteq> MaxApplicationId \<longrightarrow> fst r \<noteq> InvalidApplicationId)"
proof (rule GetNextAppId.raw_induct [OF _ assms])
  fix f :: "Orchestrator \<Rightarrow> (application_id_t \<times> Orchestrator) option" and s r
  assume IH: "\<And>x y. f x = Some y \<Longrightarrow>
     map_find (app_map x) (fst y) = None \<and> fst y \<noteq> MaxApplicationId \<and>
     snd y = x\<lparr>last_application_id := fst y\<rparr> \<and>
     (last_application_id x \<noteq> MaxApplicationId \<longrightarrow> fst y \<noteq> InvalidApplicationId)"
  assume body0: "(let s1 = s\<lparr>last_application_id := last_application_id s + 1\<rparr>;
          s2 = (if last_application_id s1 = MaxApplicationId
                then s1\<lparr>last_application_id := MinApplicationId\<rparr> else s1)
      in if map_find (app_map s2) (last_application_id s2) = None
         then Some (last_application_id s2, s2)
         else f s2) = Some r"
  let ?c = "advance_id (last_application_id s)"
  let ?s' = "s\<lparr>last_application_id := ?c\<rparr>"
  have body: "(if map_find (app_map s) ?c = None then Some (?c, ?s') else f ?s') = Some r"
    using body0 by (auto simp add: Let_def advance_id_def)
  have nmax: "?c \<noteq> MaxApplicationId" by (rule advance_id_not_Max)
  have ninv: "last_application_id s \<noteq> MaxApplicationId \<Longrightarrow> ?c \<noteq> InvalidApplicationId"
    by (auto simp add: advance_id_def MaxApplicationId_def MinApplicationId_def InvalidApplicationId_def)
  show "map_find (app_map s) (fst r) = None \<and> fst r \<noteq> MaxApplicationId \<and>
     snd r = s\<lparr>last_application_id := fst r\<rparr> \<and>
     (last_application_id s \<noteq> MaxApplicationId \<longrightarrow> fst r \<noteq> InvalidApplicationId)"
  proof (cases "map_find (app_map s) ?c = None")
    case True
    with body have "r = (?c, ?s')" by simp
    with True nmax ninv show ?thesis by simp
  next
    case False
    with body have "f ?s' = Some r" by auto
    from IH [OF this] nmax show ?thesis by simp
  qed
qed

lemma GetNextAppId_steps:
  "map_find (app_map s) ((advance_id ^^ Suc n) (last_application_id s)) = None \<Longrightarrow>
   (\<forall>j<n. map_find (app_map s) ((advance_id ^^ Suc j) (last_application_id s)) \<noteq> None) \<Longrightarrow>
   GetNextAppId s = Some ((advance_id ^^ Suc n) (last_application_id s),
                          s\<lparr>last_application_id := (advance_id ^^ Suc n) (last_application_id s)\<rparr>)"
proof (induction n arbitrary: s)
  case 0
  then show ?case by (subst GetNextAppId_unfold) simp
next
  case (Suc n)
  let ?s' = "s\<lparr>last_application_id := advance_id (last_application_id s)\<rparr>"
  have occ: "map_find (app_map s) (advance_id (last_application_id s)) \<noteq> None"
    using Suc.prems(2) by force
  have a: "map_find (app_map ?s') ((advance_id ^^ Suc n) (last_application_id ?s')) = None"
    using Suc.prems(1) by (simp add: funpow_swap1)
  have b: "\<forall>j<n. map_find (app_map ?s') ((advance_id ^^ Suc j) (last_application_id ?s')) \<noteq> None"
  proof (intro allI impI)
    fix j assume "j < n"
    then have "Suc j < Suc n" by simp
    with Suc.prems(2) have "map_find (app_map s) ((advance_id ^^ Suc (Suc j)) (last_application_id s)) \<noteq> None"
      by blast
    then show "map_find (app_map ?s') ((advance_id ^^ Suc j) (last_application_id ?s')) \<noteq> None"
      by (simp add: funpow_swap1)
  qed
  from Suc.IH [OF a b] occ show ?case
    by (subst GetNextAppId_unfold) (auto simp add: funpow_swap1)
qed

lemma unat_MaxApplicationId: "unat MaxApplicationId = 4294967294"
  by (simp add: MaxApplicationId_def InvalidApplicationId_def)

lemma advance_id_of_nat:
  assumes "x < 4294967294"
  shows "advance_id (of_nat x) = of_nat (Suc x mod 4294967294)"
proof -
  have eq: "(of_nat x + 1 :: application_id_t) = of_nat (Suc x)" by simp
  have u: "unat (of_nat (Suc x) :: application_id_t) = Suc x"
    using assms by (simp add: unat_of_nat del: of_nat_Suc)
  show ?thesis
  proof (cases "Suc x = 4294967294")
    case True
    then have "(of_nat (Suc x) :: application_id_t) = MaxApplicationId"
      by (simp add: MaxApplicationId_def InvalidApplicationId_def del: of_nat_Suc)
    with True show ?thesis
      unfolding advance_id_def eq by (simp add: MinApplicationId_def del: of_nat_Suc)
  next
    case False
    with u have "(of_nat (Suc x) :: application_id_t) \<noteq> MaxApplicationId"
      using unat_MaxApplicationId by metis
    moreover from False assms have "Suc x mod 4294967294 = Suc x" by simp
    ultimately show ?thesis
      unfolding advance_id_def eq by (simp del: of_nat_Suc)
  qed
qed

lemma advance_id_orbit:
  "x < 4294967294 \<Longrightarrow> (advance_id ^^ n) (of_nat x) = of_nat ((x + n) mod 4294967294)"
proof (induction n)
  case 0
  then show ?case by simp
next
  case (Suc n)
  have "(advance_id ^^ Suc n) (of_nat x) = advance_id (of_nat ((x + n) mod 4294967294))"
    using Suc by simp
  also have "\<dots> = of_nat (Suc ((x + n) mod 4294967294) mod 4294967294)"
    by (rule advance_id_of_nat) simp
  also have "Suc ((x + n) mod 4294967294) mod 4294967294 = (x + Suc n) mod 4294967294"
    by (simp add: mod_Suc_eq)
  finally show ?case .
qed

lemma advance_id_reaches:
  assumes k: "unat k < 4294967294"
  shows "\<exists>n. (advance_id ^^ Suc n) c = k"
proof -
  have from_zero: "(advance_id ^^ unat k) 0 = k"
    using advance_id_orbit [of 0 "unat k"] k by simp
  consider (cycle) "unat c < 4294967294" | (max) "c = MaxApplicationId" | (inv) "c = InvalidApplicationId"
  proof -
    have "unat c < 2 ^ 32" using unsigned_less [of c] by simp
    then have "unat c < 4294967294 \<or> unat c = 4294967294 \<or> unat c = 4294967295" by auto
    moreover have "unat c = 4294967294 \<Longrightarrow> c = MaxApplicationId"
      using unat_MaxApplicationId by (metis word_unat_eq_iff)
    moreover have "unat c = 4294967295 \<Longrightarrow> c = InvalidApplicationId"
      by (simp add: InvalidApplicationId_def word_unat_eq_iff)
    ultimately show ?thesis using that by blast
  qed
  then show ?thesis
  proof cases
    case cycle
    let ?n = "unat k + (4294967293 - unat c)"
    have "(advance_id ^^ Suc ?n) (of_nat (unat c)) = of_nat ((unat c + Suc ?n) mod 4294967294)"
      using cycle by (rule advance_id_orbit)
    moreover have "unat c + Suc ?n = unat k + 4294967294" using cycle by simp
    ultimately have "(advance_id ^^ Suc ?n) c = of_nat (unat k)" using k by simp
    then show ?thesis by auto
  next
    case max
    have "advance_id (advance_id c) = 0"
      by (simp add: max advance_id_def MaxApplicationId_def MinApplicationId_def InvalidApplicationId_def)
    then have "(advance_id ^^ Suc (Suc (unat k))) c = k"
      using from_zero by (simp add: funpow_swap1)
    then show ?thesis by blast
  next
    case inv
    have "advance_id c = 0"
      by (simp add: inv advance_id_def MaxApplicationId_def MinApplicationId_def InvalidApplicationId_def)
    then have "(advance_id ^^ Suc (unat k)) c = k"
      using from_zero by (simp add: funpow_swap1)
    then show ?thesis by blast
  qed
qed

lemma free_id_exists:
  assumes "length m < 4294967294"
  shows "\<exists>k. unat k < 4294967294 \<and> map_find m k = None"
proof (rule ccontr)
  assume "\<not> ?thesis"
  then have all: "\<And>k. unat k < 4294967294 \<Longrightarrow> k \<in> fst ` set m"
    by (auto simp add: map_find_def map_of_eq_None_iff)
  let ?C = "(of_nat :: nat \<Rightarrow> application_id_t) ` {..<4294967294}"
  have inj: "inj_on (of_nat :: nat \<Rightarrow> application_id_t) {..<4294967294}"
    by (rule inj_onI) (simp add: word_of_nat_eq_iff take_bit_nat_eq_self)
  have "?C \<subseteq> fst ` set m"
  proof
    fix k assume "k \<in> ?C"
    then obtain x where "x < 4294967294" "k = of_nat x" by auto
    then have "unat k < 4294967294" by (simp add: unat_of_nat)
    then show "k \<in> fst ` set m" by (rule all)
  qed
  then have "card ?C \<le> card (fst ` set m)" by (simp add: card_mono)
  also have "\<dots> \<le> length m" by (metis card_image_le List.finite_set card_length le_trans)
  finally have "card ?C \<le> length m" .
  moreover have "card ?C = 4294967294" using inj by (simp add: card_image)
  ultimately show False using assms by simp
qed

lemma GetNextAppId_terminates:
  assumes "length (app_map s) < unat MaxApplicationId"
  shows "\<exists>n. GetNextAppId s = Some ((advance_id ^^ Suc n) (last_application_id s),
                  s\<lparr>last_application_id := (advance_id ^^ Suc n) (last_application_id s)\<rparr>)
            \<and> map_find (app_map s) ((advance_id ^^ Suc n) (last_application_id s)) = None
            \<and> (\<forall>j<n. map_find (app_map s) ((advance_id ^^ Suc j) (last_application_id s)) \<noteq> None)"
proof -
  from assms obtain k where k: "unat k < 4294967294" "map_find (app_map s) k = None"
    using free_id_exists unat_MaxApplicationId by metis
  from advance_id_reaches [OF k(1)] obtain n0 where "(advance_id ^^ Suc n0) (last_application_id s) = k"
    by blast
  with k(2) have "\<exists>n. map_find (app_map s) ((advance_id ^^ Suc n) (last_application_id s)) = None"
    by metis
  then obtain n where free: "map_find (app_map s) ((advance_id ^^ Suc n) (last_application_id s)) = None"
    and occ: "\<forall>j<n. map_find (app_map s) ((advance_id ^^ Suc j) (last_application_id s)) \<noteq> None"
    using exists_least_iff [of "\<lambda>n. map_find (app_map s) ((advance_id ^^ Suc n) (last_application_id s)) = None"]
    by blast
  from GetNextAppId_steps [OF free occ] free occ show ?thesis by blast
qed

section \<open>The application table\<close>

lemma map_find_emplace:
  "map_find m k = None \<Longrightarrow>
   map_find (map_emplace k v m) k' = (if k' = k then Some v else map_find m k')"
proof -
  have "map_of (insort_key fst (k, v) m) k' = (if k' = k then Some v else map_of m k')"
    if "map_of m k = None" for m :: "(application_id_t \<times> Application) list"
    using that by (induction m) (auto split: if_splits)
  then show "map_find m k = None \<Longrightarrow> ?thesis"
    by (simp add: map_find_def map_emplace_def)
qed

lemma map_find_erase:
  "map_find (map_erase k m) k' = (if k' = k then None else map_find m k')"
  by (induction m) (auto simp add: map_find_def map_erase_def)

lemma map_erase_emplace:
  "map_find m k = None \<Longrightarrow> map_erase k (map_emplace k v m) = m"
proof -
  assume free: "map_find m k = None"
  then have "\<forall>p\<in>set m. fst p \<noteq> k"
    by (auto simp add: map_find_def map_of_eq_None_iff)
  then have "filter (\<lambda>p. fst p \<noteq> k) m = m" by (simp add: filter_id_conv)
  with free show ?thesis
    by (simp add: map_erase_def map_emplace_def map_find_def filter_insort_triv)
qed

lemma set_map_emplace:
  "map_find m k = None \<Longrightarrow> set (map_emplace k v m) = insert (k, v) (set m)"
  by (simp add: map_emplace_def map_find_def set_insort_key)

lemma NotifyModulesForDeleteEvent_eq:
  "NotifyModulesForDeleteEvent ms a r tr =
     (if list_all (\<lambda>m. OnDeleteApplication (module m) a) ms then r else Failed,
      tr @ map (\<lambda>m. DeleteEv (module_ptr (module m)) a) ms)"
  by (induction ms arbitrary: r tr) auto

lemma notify_create_eq:
  "notify_create ms a tr =
     (list_all (\<lambda>m. OnCreateApplication (module m) a) ms,
      tr @ map (\<lambda>m. CreateEv (module_ptr (module m)) a)
             (take (Suc (length (takeWhile (\<lambda>m. OnCreateApplication (module m) a) ms))) ms))"
  by (induction ms arbitrary: tr) auto

lemma DeleteApplicationInternal_absent:
  "map_find (app_map s) k = None \<Longrightarrow> DeleteApplicationInternal s k = (NotExists, s)"
  by (simp add: DeleteApplicationInternal_def)

lemma DeleteApplicationInternal_present:
  "map_find (app_map s) k = Some a \<Longrightarrow>
   DeleteApplicationInternal s k =
     (if list_all (\<lambda>m. OnDeleteApplication (module m) a) (modules s) then Succeeded else Failed,
      s\<lparr>app_map := map_erase k (app_map s), trace := trace s @ delete_events (modules s) a\<rparr>)"
  by (simp add: DeleteApplicationInternal_def NotifyModulesForDeleteEvent_eq delete_events_def)

lemma CreateApplicationInternal_exists:
  "list_ex (\<lambda>app. GetName (snd app) = GetName a) (app_map s) \<Longrightarrow>
   CreateApplicationInternal s a = (Exists, s)"
  by (simp add: CreateApplicationInternal_def)

lemma CreateApplicationInternal_new:
  assumes "\<not> list_ex (\<lambda>app. GetName (snd app) = GetName a) (app_map s)"
    and "map_find (app_map s) (GetId a) = None"
  shows "CreateApplicationInternal s a =
     (if list_all (\<lambda>m. OnCreateApplication (module m) a) (modules s)
      then (Succeeded, s\<lparr>app_map := map_emplace (GetId a) a (app_map s),
                          trace := trace s @ create_events (modules s) a\<rparr>)
      else (if list_all (\<lambda>m. OnDeleteApplication (module m) a) (modules s) then Succeeded else Failed,
            s\<lparr>trace := trace s @ create_events (modules s) a @ delete_events (modules s) a\<rparr>))"
proof -
  have found: "map_find (map_emplace (GetId a) a (app_map s)) (GetId a) = Some a"
    using assms(2) by (simp add: map_find_emplace)
  show ?thesis
    using assms
    by (simp add: CreateApplicationInternal_def notify_create_eq create_events_def [symmetric]
        DeleteApplicationInternal_present [where a = a] found map_erase_emplace)
qed

section \<open>The table under the public operations\<close>

lemma table_step_same:
  "app_map s' = app_map s \<Longrightarrow>
   last_application_id s' = last_application_id s \<or> last_application_id s' \<noteq> MaxApplicationId \<Longrightarrow>
   table_step s s'"
  by (simp add: table_step_def)

lemma table_step_emplace:
  "app_map s' = map_emplace (application_id a) a (app_map s) \<Longrightarrow>
   map_find (app_map s) (application_id a) = None \<Longrightarrow>
   application_id a \<noteq> MaxApplicationId \<Longrightarrow>
   (last_application_id s \<noteq> MaxApplicationId \<longrightarrow> application_id a \<noteq> InvalidApplicationId) \<Longrightarrow>
   \<not> list_ex (\<lambda>app. name (snd app) = name a) (app_map s) \<Longrightarrow>
   last_application_id s' = last_application_id s \<or> last_application_id s' \<noteq> MaxApplicationId \<Longrightarrow>
   table_step s s'"
  unfolding table_step_def by blast

lemma table_step_Delete: "table_step s (snd (DeleteApplicationInternal s k))"
proof (cases "map_find (app_map s) k")
  case None
  then show ?thesis by (simp add: DeleteApplicationInternal_absent table_step_def)
next
  case (Some a)
  then show ?thesis by (auto simp add: DeleteApplicationInternal_present table_step_def)
qed

lemma CreateApplicationInternal_shape:
  assumes free: "map_find (app_map s) (GetId a) = None"
  shows "(\<exists>r tr. CreateApplicationInternal s a = (r, s\<lparr>trace := tr\<rparr>)) \<or>
         (\<not> list_ex (\<lambda>app. GetName (snd app) = GetName a) (app_map s) \<and>
          (\<exists>tr. CreateApplicationInternal s a =
                  (Succeeded, s\<lparr>app_map := map_emplace (GetId a) a (app_map s), trace := tr\<rparr>)))"
proof (cases "list_ex (\<lambda>app. GetName (snd app) = GetName a) (app_map s)")
  case True
  then have "CreateApplicationInternal s a = (Exists, s\<lparr>trace := trace s\<rparr>)"
    by (simp add: CreateApplicationInternal_exists)
  then show ?thesis by blast
next
  case False
  show ?thesis
    using CreateApplicationInternal_new [OF False free] False
    by (cases "list_all (\<lambda>m. OnCreateApplication (module m) a) (modules s)") auto
qed

lemma table_step_Create:
  assumes "CreateApplication s app_cfg = Some (r, s')"
  shows "table_step s s'"
proof -
  from assms obtain i s1 where g: "GetNextAppId s = Some (i, s1)"
    and c: "CreateApplicationInternal s1 (Application_of_config i app_cfg) = (r, s')"
    by (auto simp add: CreateApplication_def split: option.splits)
  let ?a = "Application_of_config i app_cfg"
  from GetNextAppId_Some [OF g]
  have free: "map_find (app_map s) i = None" and nmax: "i \<noteq> MaxApplicationId"
    and s1: "s1 = s\<lparr>last_application_id := i\<rparr>"
    and ninv: "last_application_id s \<noteq> MaxApplicationId \<longrightarrow> i \<noteq> InvalidApplicationId"
    by simp_all
  have id: "GetId ?a = i" "application_id ?a = i" by (simp_all add: GetId_def Application_of_config_def)
  have "map_find (app_map s1) (GetId ?a) = None" using free s1 id by simp
  from CreateApplicationInternal_shape [OF this]
  consider (same) r0 tr where "CreateApplicationInternal s1 ?a = (r0, s1\<lparr>trace := tr\<rparr>)"
    | (created) tr where "\<not> list_ex (\<lambda>app. GetName (snd app) = GetName ?a) (app_map s1)"
        "CreateApplicationInternal s1 ?a =
           (Succeeded, s1\<lparr>app_map := map_emplace (GetId ?a) ?a (app_map s1), trace := tr\<rparr>)"
    by blast
  then show ?thesis
  proof cases
    case same
    with c have "s' = s1\<lparr>trace := tr\<rparr>" by simp
    then show ?thesis using s1 nmax by (intro table_step_same) simp_all
  next
    case created
    with c have "s' = s1\<lparr>app_map := map_emplace (GetId ?a) ?a (app_map s1), trace := tr\<rparr>" by simp
    then show ?thesis
      using s1 nmax ninv free created(1) id
      by (intro table_step_emplace [where a = ?a]) (simp_all add: GetName_def)
  qed
qed

section \<open>The pull coordinator\<close>

lemma GetApplicationInternal_absent:
  "\<not> list_ex (\<lambda>app. GetName (snd app) = app_name) (app_map s) \<Longrightarrow>
   GetApplicationInternal s app_name = GetInvalidApplication"
proof -
  assume "\<not> list_ex (\<lambda>app. GetName (snd app) = app_name) (app_map s)"
  then have "List.find (\<lambda>app. GetName (snd app) = app_name) (app_map s) = None"
    by (auto simp add: find_None_iff list_ex_iff)
  then show ?thesis by (simp add: GetApplicationInternal_def)
qed

lemma not_IsValid_Invalid: "\<not> IsValid GetInvalidApplication"
  by (simp add: IsValid_def GetInvalidApplication_def)

lemma RequestPullStream_existing:
  assumes "GetUrlListForLocation s app_name stream_name [] = (Some origin, urls)"
    and "GetProviderModuleForScheme s (scheme origin) = Some p"
    and "IsValid (GetApplicationInternal s app_name)"
  shows "RequestPullStream s app_name stream_name =
     Some (PullStream p (GetApplicationInternal s app_name) stream_name urls,
           s\<lparr>trace := trace s @ [PullEv (module_ptr p) (GetApplicationInternal s app_name) stream_name urls]\<rparr>)"
  using assms
  by (simp add: RequestPullStream_def RequestPullStreamForLocation_def pull_and_rollback_def Let_def)

lemma RequestPullStream_new:
  assumes res: "GetUrlListForLocation s app_name stream_name [] = (Some origin, urls)"
    and prov: "GetProviderModuleForScheme s (scheme origin) = Some p"
    and noname: "\<not> list_ex (\<lambda>app. GetName (snd app) = app_name) (app_map s)"
    and g: "GetNextAppId s = Some (i, s1)"
  shows "RequestPullStream s app_name stream_name =
     (let a = Application_of_name i app_name;
          pull = PullEv (module_ptr p) a stream_name urls;
          cr = create_events (modules s) a;
          del = delete_events (modules s) a
      in if list_all (\<lambda>m. OnCreateApplication (module m) a) (modules s)
         then (if PullStream p a stream_name urls
               then Some (True, s\<lparr>app_map := map_emplace i a (app_map s), last_application_id := i,
                                   trace := trace s @ cr @ [pull]\<rparr>)
               else Some (False, s\<lparr>last_application_id := i, trace := trace s @ cr @ [pull] @ del\<rparr>))
         else if list_all (\<lambda>m. OnDeleteApplication (module m) a) (modules s)
         then Some (PullStream p a stream_name urls,
                    s\<lparr>last_application_id := i, trace := trace s @ cr @ del @ [pull]\<rparr>)
         else Some (False, s\<lparr>last_application_id := i, trace := trace s @ cr @ del\<rparr>))"
proof -
  let ?a = "Application_of_name i app_name"
  from GetNextAppId_Some [OF g]
  have free: "map_find (app_map s) i = None" and s1: "s1 = s\<lparr>last_application_id := i\<rparr>"
    by simp_all
  have id: "GetId ?a = i" "GetName ?a = app_name"
    by (simp_all add: GetId_def GetName_def Application_of_name_def)
  have noname1: "\<not> list_ex (\<lambda>app. GetName (snd app) = GetName ?a) (app_map s1)"
    using noname s1 id by simp
  have free1: "map_find (app_map s1) (GetId ?a) = None" using free s1 id by simp
  have c: "CreateApplicationInternal s1 ?a =
     (if list_all (\<lambda>m. OnCreateApplication (module m) ?a) (modules s)
      then (Succeeded, s\<lparr>app_map := map_emplace i ?a (app_map s), last_application_id := i,
                          trace := trace s @ create_events (modules s) ?a\<rparr>)
      else (if list_all (\<lambda>m. OnDeleteApplication (module m) ?a) (modules s) then Succeeded else Failed,
            s\<lparr>last_application_id := i,
              trace := trace s @ create_events (modules s) ?a @ delete_events (modules s) ?a\<rparr>))"
    unfolding CreateApplicationInternal_new [OF noname1 free1] by (simp add: s1 id)
  have found: "map_find (map_emplace i ?a (app_map s)) i = Some ?a"
    using free by (simp add: map_find_emplace)
  have inv: "\<not> IsValid (GetApplicationInternal s app_name)"
    using noname by (simp add: GetApplicationInternal_absent not_IsValid_Invalid)
  show ?thesis
    using res prov inv g
    by (simp add: RequestPullStream_def RequestPullStreamForLocation_def
        CreateApplicationInternal_name_def c id pull_and_rollback_def Let_def
        DeleteApplicationInternal_present [where a = ?a] found
        DeleteApplicationInternal_absent free map_erase_emplace)
qed

section \<open>Invariants of the table\<close>

text \<open>
  Every public operation changes the table and the counter by a \<open>table_step\<close>.
\<close>

lemma table_step_RequestPullStream:
  assumes run: "RequestPullStream s app_name stream_name = Some (r, s')"
  shows "table_step s s'"
proof -
  obtain origin_opt urls where res: "GetUrlListForLocation s app_name stream_name [] = (origin_opt, urls)"
    by (cases "GetUrlListForLocation s app_name stream_name []") auto
  show ?thesis
  proof (cases origin_opt)
    case None
    with run res have "s' = s"
      by (simp add: RequestPullStream_def RequestPullStreamForLocation_def)
    then show ?thesis by (simp add: table_step_same)
  next
    case (Some origin)
    note res' = res [unfolded Some]
    show ?thesis
    proof (cases "GetProviderModuleForScheme s (scheme origin)")
      case None
      with run res' have "s' = s"
        by (simp add: RequestPullStream_def RequestPullStreamForLocation_def)
      then show ?thesis by (simp add: table_step_same)
    next
      case (Some p)
      show ?thesis
      proof (cases "IsValid (GetApplicationInternal s app_name)")
        case True
        from RequestPullStream_existing [OF res' Some True] run
        show ?thesis by (auto intro: table_step_same)
      next
        case False
        from run res' Some False obtain i s1 where g: "GetNextAppId s = Some (i, s1)"
          by (auto simp add: RequestPullStream_def RequestPullStreamForLocation_def
              CreateApplicationInternal_name_def split: option.splits)
        let ?a = "Application_of_name i app_name"
        from GetNextAppId_Some [OF g]
        have free: "map_find (app_map s) i = None" and nmax: "i \<noteq> MaxApplicationId"
          and s1: "s1 = s\<lparr>last_application_id := i\<rparr>"
          and ninv: "last_application_id s \<noteq> MaxApplicationId \<longrightarrow> i \<noteq> InvalidApplicationId"
          by simp_all
        have id: "GetId ?a = i" "GetName ?a = app_name" "application_id ?a = i" "name ?a = app_name"
          by (simp_all add: GetId_def GetName_def Application_of_name_def)
        show ?thesis
        proof (cases "list_ex (\<lambda>app. GetName (snd app) = app_name) (app_map s)")
          case True
          then have "CreateApplicationInternal s1 ?a = (Exists, s1)"
            using s1 id by (simp add: CreateApplicationInternal_exists)
          with run res' Some False g have "s' = s1"
            by (simp add: RequestPullStream_def RequestPullStreamForLocation_def
                CreateApplicationInternal_name_def)
          then show ?thesis using s1 nmax by (intro table_step_same) simp_all
        next
          case noname: False
          from RequestPullStream_new [OF res' Some noname g] run
          consider (same) tr where "s' = s\<lparr>last_application_id := i, trace := tr\<rparr>"
            | (created) tr where "s' = s\<lparr>app_map := map_emplace i ?a (app_map s),
                                           last_application_id := i, trace := tr\<rparr>"
            by (auto simp add: Let_def split: if_splits)
          then show ?thesis
          proof cases
            case same
            then show ?thesis using nmax by (intro table_step_same) simp_all
          next
            case created
            then show ?thesis
              using nmax ninv free noname id
              by (intro table_step_emplace [where a = ?a]) (simp_all add: GetName_def)
          qed
        qed
      qed
    qed
  qed
qed

lemma RegisterModule_frame:
  "app_map (snd (RegisterModule s m)) = app_map s"
  "last_application_id (snd (RegisterModule s m)) = last_application_id s"
  by (simp_all add: RegisterModule_def Let_def split: option.splits)

lemma UnregisterModule_frame:
  "app_map (snd (UnregisterModule s m)) = app_map s"
  "last_application_id (snd (UnregisterModule s m)) = last_application_id s"
  by (simp_all add: UnregisterModule_def split: option.splits)

lemma table_step_run_op:
  assumes "run_op s operation = Some s'"
  shows "table_step s s'"
proof (cases operation)
  case (OpPrepareOriginMap origins)
  with assms show ?thesis by (auto simp add: PrepareOriginMap_def intro: table_step_same)
next
  case (OpRegisterModule m)
  with assms show ?thesis
    by (auto simp add: RegisterModule_frame intro!: table_step_same)
next
  case (OpUnregisterModule m)
  with assms show ?thesis
    by (auto simp add: UnregisterModule_frame intro!: table_step_same)
next
  case (OpCreateApplication app_cfg)
  with assms show ?thesis by (auto intro: table_step_Create)
next
  case (OpDeleteApplication app_info)
  with assms show ?thesis by (auto simp add: DeleteApplication_def intro: table_step_Delete)
next
  case (OpGetApplication app_name)
  with assms show ?thesis by (auto intro: table_step_same)
next
  case (OpGetApplication_id app_id)
  with assms show ?thesis by (auto intro: table_step_same)
next
  case (OpRequestPullStream application stream)
  with assms show ?thesis by (auto intro: table_step_RequestPullStream)
qed

lemma table_ok_erase: "table_ok m \<Longrightarrow> table_ok (map_erase k m)"
  by (simp add: table_ok_def map_erase_def list_all_iff distinct_map_filter)

lemma distinct_map_insort_key:
  "distinct (map g (insort_key f x xs)) \<longleftrightarrow> g x \<notin> g ` set xs \<and> distinct (map g xs)"
  by (induction xs) (auto simp add: set_insort_key)

lemma table_ok_emplace:
  assumes "table_ok m" "map_find m (application_id a) = None"
    "application_id a \<noteq> InvalidApplicationId"
    "\<not> list_ex (\<lambda>app. name (snd app) = name a) m"
  shows "table_ok (map_emplace (application_id a) a m)"
proof -
  from assms(2) have k: "application_id a \<notin> fst ` set m"
    by (simp add: map_find_def map_of_eq_None_iff)
  from assms(4) have n: "name a \<notin> (\<lambda>p. name (snd p)) ` set m"
    by (auto simp add: list_ex_iff)
  from assms(1,2,3) k n show ?thesis
    by (simp add: table_ok_def map_emplace_def map_find_def list_all_iff set_insort_key
        distinct_map_insort_key)
qed

lemma table_step_preserves_ok:
  assumes "table_step s s'" "table_ok (app_map s)" "last_application_id s \<noteq> MaxApplicationId"
  shows "table_ok (app_map s') \<and> last_application_id s' \<noteq> MaxApplicationId"
  using assms unfolding table_step_def
  by (auto simp add: table_ok_erase table_ok_emplace)

lemma table_step_preserves_no_Max:
  assumes "table_step s s'" "map_find (app_map s) MaxApplicationId = None"
  shows "map_find (app_map s') MaxApplicationId = None"
  using assms unfolding table_step_def
  by (auto simp add: map_find_erase map_find_emplace)

lemma run_ops_ok:
  "run_ops s ops = Some s' \<Longrightarrow> table_ok (app_map s) \<Longrightarrow> last_application_id s \<noteq> MaxApplicationId \<Longrightarrow>
   table_ok (app_map s') \<and> last_application_id s' \<noteq> MaxApplicationId"
proof (induction ops arbitrary: s)
  case Nil
  then show ?case by simp
next
  case (Cons operation rest)
  from Cons.prems(1) obtain s1 where 1: "run_op s operation = Some s1" and 2: "run_ops s1 rest = Some s'"
    by (auto split: option.splits)
  from table_step_preserves_ok [OF table_step_run_op [OF 1] Cons.prems(2,3)]
  show ?case using Cons.IH [OF 2] by blast
qed

lemma run_ops_no_Max:
  "run_ops s ops = Some s' \<Longrightarrow> map_find (app_map s) MaxApplicationId = None \<Longrightarrow>
   map_find (app_map s') MaxApplicationId = None"
proof (induction ops arbitrary: s)
  case Nil
  then show ?case by simp
next
  case (Cons operation rest)
  from Cons.prems(1) obtain s1 where 1: "run_op s operation = Some s1" and 2: "run_ops s1 rest = Some s'"
    by (auto split: option.splits)
  from table_step_preserves_no_Max [OF table_step_run_op [OF 1] Cons.prems(2)]
  show ?case using Cons.IH [OF 2] by blast
qed

section \<open>Claims about the id allocator\<close>

lemma GetNextAppId_free:
  "map_find (app_map s) (advance_id (last_application_id s)) = None \<Longrightarrow>
   GetNextAppId s = Some (advance_id (last_application_id s),
                          s\<lparr>last_application_id := advance_id (last_application_id s)\<rparr>)"
  by (subst GetNextAppId_unfold) simp

lemma GetNextAppId_occupied:
  "map_find (app_map s) (advance_id (last_application_id s)) = Some a \<Longrightarrow>
   GetNextAppId s = GetNextAppId (s\<lparr>last_application_id := advance_id (last_application_id s)\<rparr>)"
  by (subst GetNextAppId_unfold) simp

lemma full_table_occupied:
  assumes "k \<noteq> MaxApplicationId" "k \<noteq> InvalidApplicationId"
  shows "map_find full_table k \<noteq> None"
proof -
  have "unat k < 2 ^ 32" using unsigned_less [of k] by simp
  moreover have "unat k \<noteq> 4294967294"
    using assms(1) unat_MaxApplicationId by (metis word_unat_eq_iff)
  moreover have "unat k \<noteq> 4294967295"
    using assms(2) by (auto simp add: InvalidApplicationId_def word_unat_eq_iff)
  ultimately have "unat k < 4294967294" by simp
  then have "unat k \<in> set [0..<4294967294]" by simp
  then have "of_nat (unat k) \<in> fst ` set full_table"
    unfolding full_table_def by (force simp del: of_nat_unat)
  then show ?thesis by (simp add: map_find_def map_of_eq_None_iff)
qed

lemma GetNextAppId_full_table:
  assumes "app_map s = full_table" "last_application_id s \<noteq> MaxApplicationId"
  shows "GetNextAppId s = None"
proof (cases "GetNextAppId s")
  case None
  then show ?thesis .
next
  case (Some r)
  from GetNextAppId_Some [OF Some] assms full_table_occupied [of "fst r"]
  show ?thesis by auto
qed

text \<open>
  Claim C4 as stated fails in two places. The counter is reset to the minimum when it
  reaches \<open>MaxApplicationId\<close> (\<open>2^32 - 2\<close>), not the invalid sentinel: from
  \<open>0xFFFFFFFD\<close> and an empty table the allocator returns \<open>0\<close>, although the next
  value is not the sentinel. And a table of \<open>MaxApplicationId\<close> applications on the ids
  \<open>0 .. 2^32 - 3\<close> leaves no id that the loop can reach: the call does not return.
\<close>

theorem GetNextAppId_wrap_counterexample:
  "0xFFFFFFFD + 1 \<noteq> InvalidApplicationId \<and>
   GetNextAppId (initial_orchestrator 0xFFFFFFFD) = Some (MinApplicationId, initial_orchestrator MinApplicationId) \<and>
   length full_table \<le> unat MaxApplicationId \<and>
   GetNextAppId ((initial_orchestrator MinApplicationId)\<lparr>app_map := full_table\<rparr>) = None"
proof -
  have 1: "(0xFFFFFFFD :: application_id_t) + 1 \<noteq> InvalidApplicationId"
    by (simp add: InvalidApplicationId_def)
  have 2: "GetNextAppId (initial_orchestrator 0xFFFFFFFD) =
             Some (MinApplicationId, initial_orchestrator MinApplicationId)"
    by (subst GetNextAppId_unfold)
      (simp add: initial_orchestrator_def advance_id_def map_find_def MaxApplicationId_def
        InvalidApplicationId_def MinApplicationId_def)
  have 3: "length full_table \<le> unat MaxApplicationId"
    by (simp add: full_table_def unat_MaxApplicationId)
  have 4: "GetNextAppId ((initial_orchestrator MinApplicationId)\<lparr>app_map := full_table\<rparr>) = None"
    by (rule GetNextAppId_full_table)
      (simp_all add: initial_orchestrator_def MinApplicationId_def MaxApplicationId_def
        InvalidApplicationId_def)
  from 1 2 3 4 show ?thesis by blast
qed

text \<open>
  Claim C4, amended. For every table that holds fewer than \<open>MaxApplicationId\<close>
  applications, \<open>GetNextAppId\<close> returns: the id is not in the table, every id the
  counter passed before it is in the table, and the counter is left at the returned id.
  The counter advances by one per step and is reset to the minimum when it reaches
  \<open>MaxApplicationId\<close> (\<open>2^32 - 2\<close>), so that id is never returned.
\<close>

theorem GetNextAppId_allocates:
  assumes "length (app_map s) < unat MaxApplicationId"
  shows "\<exists>n. GetNextAppId s =
             Some ((advance_id ^^ Suc n) (last_application_id s),
                   s\<lparr>last_application_id := (advance_id ^^ Suc n) (last_application_id s)\<rparr>) \<and>
           map_find (app_map s) ((advance_id ^^ Suc n) (last_application_id s)) = None \<and>
           (\<forall>j<n. map_find (app_map s) ((advance_id ^^ Suc j) (last_application_id s)) \<noteq> None) \<and>
           (advance_id ^^ Suc n) (last_application_id s) \<noteq> MaxApplicationId \<and>
           (\<forall>c. advance_id c = (if c + 1 = MaxApplicationId then MinApplicationId else c + 1))"
proof -
  from GetNextAppId_terminates [OF assms] obtain n where
    n: "GetNextAppId s =
             Some ((advance_id ^^ Suc n) (last_application_id s),
                   s\<lparr>last_application_id := (advance_id ^^ Suc n) (last_application_id s)\<rparr>)"
       "map_find (app_map s) ((advance_id ^^ Suc n) (last_application_id s)) = None"
       "\<forall>j<n. map_find (app_map s) ((advance_id ^^ Suc j) (last_application_id s)) \<noteq> None"
    by blast
  have "(advance_id ^^ Suc n) (last_application_id s) \<noteq> MaxApplicationId"
    by (simp add: advance_id_not_Max)
  moreover have "\<forall>c. advance_id c = (if c + 1 = MaxApplicationId then MinApplicationId else c + 1)"
    by (simp add: advance_id_def)
  ultimately show ?thesis using n by blast
qed

text \<open>
  The amended claim C4 at a counter near the maximum: the ids \<open>0xFFFFFFFD\<close>, \<open>0\<close> and
  \<open>1\<close> are taken, the counter is \<open>0xFFFFFFFC\<close>, and the allocator wraps and returns \<open>2\<close>.
\<close>

theorem GetNextAppId_allocates_witness:
  "length (app_map near_max_state) < unat MaxApplicationId \<and>
   (\<exists>n. (advance_id ^^ Suc n) (last_application_id near_max_state) = 2 \<and>
        GetNextAppId near_max_state = Some (2, near_max_state\<lparr>last_application_id := 2\<rparr>))"
proof -
  have h: "length (app_map near_max_state) < unat MaxApplicationId"
    by (simp add: near_max_state_def unat_MaxApplicationId)
  have a: "\<And>c. advance_id c = (if c + 1 = 0xFFFFFFFE then 0 else c + 1)"
    by (simp add: advance_id_def MaxApplicationId_def InvalidApplicationId_def MinApplicationId_def)
  have e: "GetNextAppId near_max_state = Some (2, near_max_state\<lparr>last_application_id := 2\<rparr>)"
    by (simp add: GetNextAppId_occupied GetNextAppId_free near_max_state_def initial_orchestrator_def
        map_find_def a)
  from GetNextAppId_allocates [OF h] obtain n where
    "GetNextAppId near_max_state =
             Some ((advance_id ^^ Suc n) (last_application_id near_max_state),
                   near_max_state\<lparr>last_application_id := (advance_id ^^ Suc n) (last_application_id near_max_state)\<rparr>)"
    by blast
  with e have "(advance_id ^^ Suc n) (last_application_id near_max_state) = 2" by simp
  with e h show ?thesis by blast
qed

lemmas table_eval =
  initial_orchestrator_def map_find_def map_emplace_def map_erase_def GetId_def GetName_def
  Application_of_config_def Application_of_name_def CreateApplication_def
  CreateApplicationInternal_def DeleteApplicationInternal_def DeleteApplication_def
  GetApplication_def GetApplicationInternal_def GetInvalidApplication_def IsValid_def

lemma advance_id_eval: "advance_id c = (if c + 1 = 0xFFFFFFFE then 0 else c + 1)"
  by (simp add: advance_id_def MaxApplicationId_def InvalidApplicationId_def MinApplicationId_def)

text \<open>
  Claim C10. \<open>GetNextAppId\<close> never returns \<open>MaxApplicationId\<close>: the counter is reset to
  the minimum on reaching it, before the table is consulted. Hence after any sequence
  of public operations on a new orchestrator, whatever the initial counter, the
  application table has no entry with that id.
\<close>

theorem MaxApplicationId_never_allocated:
  "(GetNextAppId s = Some (i, s') \<longrightarrow> i \<noteq> MaxApplicationId) \<and>
   (run_ops (initial_orchestrator c0) ops = Some t \<longrightarrow> map_find (app_map t) MaxApplicationId = None) \<and>
   advance_id (MaxApplicationId - 1) = MinApplicationId"
proof (intro conjI impI)
  assume "GetNextAppId s = Some (i, s')"
  from GetNextAppId_Some [OF this] show "i \<noteq> MaxApplicationId" by simp
next
  assume "run_ops (initial_orchestrator c0) ops = Some t"
  then show "map_find (app_map t) MaxApplicationId = None"
    by (rule run_ops_no_Max) (simp add: initial_orchestrator_def map_find_def)
next
  show "advance_id (MaxApplicationId - 1) = MinApplicationId"
    by (simp add: advance_id_def)
qed

text \<open>
  Claim C10 at the counter \<open>0xFFFFFFFD\<close>: the next id is \<open>0\<close>, not \<open>0xFFFFFFFE\<close>.
\<close>

theorem MaxApplicationId_never_allocated_witness:
  "GetNextAppId (initial_orchestrator 0xFFFFFFFD) = Some (0, initial_orchestrator 0) \<and>
   (0 :: application_id_t) \<noteq> MaxApplicationId \<and>
   run_ops (initial_orchestrator 0xFFFFFFFD) [OpCreateApplication live_cfg] =
     Some ((initial_orchestrator 0)\<lparr>app_map := [(0, Application_of_config 0 live_cfg)]\<rparr>) \<and>
   map_find (app_map ((initial_orchestrator 0)\<lparr>app_map := [(0, Application_of_config 0 live_cfg)]\<rparr>))
     MaxApplicationId = None"
proof -
  have a: "\<And>c. advance_id c = (if c + 1 = 0xFFFFFFFE then 0 else c + 1)"
    by (simp add: advance_id_def MaxApplicationId_def InvalidApplicationId_def MinApplicationId_def)
  have g: "GetNextAppId (initial_orchestrator 0xFFFFFFFD) = Some (0, initial_orchestrator 0)"
    by (simp add: GetNextAppId_free initial_orchestrator_def map_find_def a)
  have r: "run_ops (initial_orchestrator 0xFFFFFFFD) [OpCreateApplication live_cfg] =
     Some ((initial_orchestrator 0)\<lparr>app_map := [(0, Application_of_config 0 live_cfg)]\<rparr>)"
    by (simp add: CreateApplication_def g) (simp add: table_eval)
  from MaxApplicationId_never_allocated
    [of "initial_orchestrator 0xFFFFFFFD" 0 "initial_orchestrator 0" "0xFFFFFFFD"
        "[OpCreateApplication live_cfg]"
        "(initial_orchestrator 0)\<lparr>app_map := [(0, Application_of_config 0 live_cfg)]\<rparr>"]
    g r
  show ?thesis by simp
qed

section \<open>Claims about the application table\<close>

text \<open>
  Claim C9. After any sequence of public operations on a new orchestrator whose
  counter does not start at \<open>MaxApplicationId\<close>, no id in the application table is
  \<open>InvalidApplicationId\<close>, and two distinct entries of the table differ in their names
  and in their ids.
\<close>

theorem app_map_invariants:
  assumes "c0 \<noteq> MaxApplicationId"
    and "run_ops (initial_orchestrator c0) ops = Some s"
  shows "(\<forall>p\<in>set (app_map s). fst p \<noteq> InvalidApplicationId \<and> IsValid (snd p)) \<and>
         (\<forall>p\<in>set (app_map s). \<forall>q\<in>set (app_map s). p \<noteq> q \<longrightarrow>
             name (snd p) \<noteq> name (snd q) \<and> application_id (snd p) \<noteq> application_id (snd q) \<and>
             fst p \<noteq> fst q)"
proof -
  have "table_ok (app_map (initial_orchestrator c0))"
    by (simp add: initial_orchestrator_def table_ok_def)
  moreover have "last_application_id (initial_orchestrator c0) \<noteq> MaxApplicationId"
    using assms(1) by (simp add: initial_orchestrator_def)
  ultimately have ok: "table_ok (app_map s)"
    using run_ops_ok [OF assms(2)] by blast
  then have ids: "\<forall>p\<in>set (app_map s). fst p \<noteq> InvalidApplicationId \<and> application_id (snd p) = fst p"
    and dk: "distinct (map fst (app_map s))"
    and dn: "distinct (map (\<lambda>p. name (snd p)) (app_map s))"
    by (simp_all add: table_ok_def list_all_iff)
  have 1: "\<forall>p\<in>set (app_map s). fst p \<noteq> InvalidApplicationId \<and> IsValid (snd p)"
    using ids by (simp add: IsValid_def)
  have 2: "\<forall>p\<in>set (app_map s). \<forall>q\<in>set (app_map s). p \<noteq> q \<longrightarrow>
             name (snd p) \<noteq> name (snd q) \<and> application_id (snd p) \<noteq> application_id (snd q) \<and>
             fst p \<noteq> fst q"
  proof (intro ballI impI)
    fix p q assume pq: "p \<in> set (app_map s)" "q \<in> set (app_map s)" "p \<noteq> q"
    from dk pq have k: "fst p \<noteq> fst q"
      by (meson distinct_map inj_on_eq_iff)
    from dn pq have "name (snd p) \<noteq> name (snd q)"
      by (meson distinct_map inj_on_eq_iff)
    with k ids pq show "name (snd p) \<noteq> name (snd q) \<and>
        application_id (snd p) \<noteq> application_id (snd q) \<and> fst p \<noteq> fst q"
      by simp
  qed
  from 1 2 show ?thesis by blast
qed

lemma mock_module_simps:
  "module_ptr (mock_module p t c d u) = p"
  "GetModuleType (mock_module p t c d u) = t"
  "OnCreateApplication (mock_module p t c d u) a = c"
  "OnDeleteApplication (mock_module p t c d u) a = d"
  "GetProviderType (mock_module p t c d u) = (if t = Provider then Some Ovt else None)"
  "PullStream (mock_module p t c d u) a n us = u"
  by (simp_all add: mock_module_def)

lemma run_ops_two_apps:
  "map_option app_map (run_ops (initial_orchestrator 0) two_apps) =
     Some [(1, Application_of_config 1 live_cfg), (2, Application_of_config 2 \<lparr>cfg_Name = ''vod''\<rparr>)]"
  by (simp add: two_apps_def live_cfg_def RegisterModule_def CreateApplication_def
      GetNextAppId_free GetNextAppId_occupied advance_id_eval map_find_def initial_orchestrator_def
      CreateApplicationInternal_def GetName_def GetId_def Application_of_config_def
      mock_module_simps map_emplace_def word_le_nat_alt)

text \<open>
  Claim C9 on a run that registers a module and creates the applications \<open>live\<close> and
  \<open>vod\<close>: they get the ids \<open>1\<close> and \<open>2\<close>.
\<close>

theorem app_map_invariants_witness:
  "(0 :: application_id_t) \<noteq> MaxApplicationId \<and>
   map_option app_map (run_ops (initial_orchestrator 0) two_apps) =
     Some [(1, Application_of_config 1 live_cfg), (2, Application_of_config 2 \<lparr>cfg_Name = ''vod''\<rparr>)] \<and>
   IsValid (Application_of_config 1 live_cfg) \<and>
   name (Application_of_config 1 live_cfg) \<noteq> name (Application_of_config 2 \<lparr>cfg_Name = ''vod''\<rparr>)"
proof -
  have h: "(0 :: application_id_t) \<noteq> MaxApplicationId"
    by (simp add: MaxApplicationId_def InvalidApplicationId_def)
  from run_ops_two_apps obtain s where s: "run_ops (initial_orchestrator 0) two_apps = Some s"
    and m: "app_map s = [(1, Application_of_config 1 live_cfg), (2, Application_of_config 2 \<lparr>cfg_Name = ''vod''\<rparr>)]"
    by auto
  from app_map_invariants [OF h s]
  have "IsValid (Application_of_config 1 live_cfg) \<and>
        name (Application_of_config 1 live_cfg) \<noteq> name (Application_of_config 2 \<lparr>cfg_Name = ''vod''\<rparr>)"
    unfolding m by simp
  with h run_ops_two_apps show ?thesis by simp
qed

text \<open>
  Claim C8 as stated fails on the counter. The first \<open>CreateApplication\<close> for \<open>live\<close>
  succeeds and leaves the counter at \<open>1\<close>; the second returns \<open>Exists\<close> and leaves the
  counter at \<open>2\<close>: the id is allocated before the table is searched for the name. For
  the same reason the call does not return on a table without a free id, although the
  table holds the name.
\<close>

theorem CreateApplication_Exists_counterexample:
  "CreateApplication (initial_orchestrator 0) live_cfg =
     Some (Succeeded, (initial_orchestrator 1)\<lparr>app_map := [(1, Application_of_config 1 live_cfg)]\<rparr>) \<and>
   CreateApplication ((initial_orchestrator 1)\<lparr>app_map := [(1, Application_of_config 1 live_cfg)]\<rparr>) live_cfg =
     Some (Exists, (initial_orchestrator 2)\<lparr>app_map := [(1, Application_of_config 1 live_cfg)]\<rparr>) \<and>
   last_application_id ((initial_orchestrator 2)\<lparr>app_map := [(1, Application_of_config 1 live_cfg)]\<rparr>) \<noteq>
   last_application_id ((initial_orchestrator 1)\<lparr>app_map := [(1, Application_of_config 1 live_cfg)]\<rparr>) \<and>
   (1, Application_of_name 1 ''a'') \<in> set full_table \<and>
   CreateApplication ((initial_orchestrator 0)\<lparr>app_map := full_table\<rparr>) \<lparr>cfg_Name = ''a''\<rparr> = None"
proof -
  have "(\<lambda>n. (of_nat n :: application_id_t, Application_of_name (of_nat n) (replicate n (CHR ''a'')))) 1
          \<in> set full_table"
    unfolding full_table_def set_map by (rule imageI) simp
  then have m: "(1, Application_of_name 1 ''a'') \<in> set full_table" by simp
  have "GetNextAppId ((initial_orchestrator 0)\<lparr>app_map := full_table\<rparr>) = None"
    by (rule GetNextAppId_full_table)
      (simp_all add: initial_orchestrator_def MaxApplicationId_def InvalidApplicationId_def)
  then have n: "CreateApplication ((initial_orchestrator 0)\<lparr>app_map := full_table\<rparr>) \<lparr>cfg_Name = ''a''\<rparr> = None"
    by (simp add: CreateApplication_def)
  from m n show ?thesis
    by (simp add: live_cfg_def CreateApplication_def
      GetNextAppId_free GetNextAppId_occupied advance_id_eval map_find_def initial_orchestrator_def
      CreateApplicationInternal_def GetName_def GetId_def Application_of_config_def map_emplace_def)
qed

text \<open>
  Claim C8, amended. When the table already holds a descriptor with the requested name
  and fewer than \<open>MaxApplicationId\<close> applications, \<open>CreateApplication\<close> returns \<open>Exists\<close>;
  the table, the registry, the origin list and the record of module calls are
  unchanged (no module is notified); only the counter moves, to the id that was
  allocated for the descriptor and then dropped.
\<close>

theorem CreateApplication_existing_name:
  assumes "list_ex (\<lambda>app. GetName (snd app) = cfg_Name app_cfg) (app_map s)"
    and "length (app_map s) < unat MaxApplicationId"
  shows "\<exists>i. CreateApplication s app_cfg = Some (Exists, s\<lparr>last_application_id := i\<rparr>) \<and>
             GetNextAppId s = Some (i, s\<lparr>last_application_id := i\<rparr>) \<and>
             map_find (app_map s) i = None"
proof -
  from GetNextAppId_terminates [OF assms(2)] obtain i where
    g: "GetNextAppId s = Some (i, s\<lparr>last_application_id := i\<rparr>)"
    and free: "map_find (app_map s) i = None"
    by blast
  have "GetName (Application_of_config i app_cfg) = cfg_Name app_cfg"
    by (simp add: GetName_def Application_of_config_def)
  with assms(1) have "CreateApplicationInternal (s\<lparr>last_application_id := i\<rparr>)
      (Application_of_config i app_cfg) = (Exists, s\<lparr>last_application_id := i\<rparr>)"
    by (simp add: CreateApplicationInternal_exists)
  with g free show ?thesis by (simp add: CreateApplication_def)
qed

text \<open>
  The amended claim C8 on the table that holds \<open>live\<close> under the id \<open>1\<close>.
\<close>

theorem CreateApplication_existing_name_witness:
  "list_ex (\<lambda>app. GetName (snd app) = cfg_Name live_cfg)
     (app_map ((initial_orchestrator 1)\<lparr>app_map := [(1, Application_of_config 1 live_cfg)]\<rparr>)) \<and>
   length (app_map ((initial_orchestrator 1)\<lparr>app_map := [(1, Application_of_config 1 live_cfg)]\<rparr>))
     < unat MaxApplicationId \<and>
   (\<exists>i. CreateApplication ((initial_orchestrator 1)\<lparr>app_map := [(1, Application_of_config 1 live_cfg)]\<rparr>) live_cfg =
          Some (Exists, (initial_orchestrator i)\<lparr>app_map := [(1, Application_of_config 1 live_cfg)]\<rparr>))"
proof -
  let ?s = "(initial_orchestrator 1)\<lparr>app_map := [(1, Application_of_config 1 live_cfg)]\<rparr>"
  have h1: "list_ex (\<lambda>app. GetName (snd app) = cfg_Name live_cfg) (app_map ?s)"
    by (simp add: GetName_def Application_of_config_def initial_orchestrator_def)
  have h2: "length (app_map ?s) < unat MaxApplicationId"
    by (simp add: initial_orchestrator_def unat_MaxApplicationId)
  from CreateApplication_existing_name [OF h1 h2] obtain i where
    "CreateApplication ?s live_cfg = Some (Exists, ?s\<lparr>last_application_id := i\<rparr>)"
    by blast
  then have "CreateApplication ?s live_cfg =
      Some (Exists, (initial_orchestrator i)\<lparr>app_map := [(1, Application_of_config 1 live_cfg)]\<rparr>)"
    by (simp add: initial_orchestrator_def)
  with h1 h2 show ?thesis by blast
qed

lemma LowerCaseString_ovt: "LowerCaseString ''ovt'' = ''ovt''"
  by code_simp

lemma two_modules_eq:
  "two_modules =
     \<lparr>modules = [\<lparr>type = Provider, module = mock_module 1 Provider True True True\<rparr>,
                 \<lparr>type = Publisher, module = mock_module 2 Publisher False True True\<rparr>],
      module_map = (\<lambda>t. [])(Provider := [mock_module 1 Provider True True True],
                              Publisher := [mock_module 2 Publisher False True True]),
      app_map = [], last_application_id = 0, origin_list = [], trace = []\<rparr>"
  by (simp add: two_modules_def RegisterModule_def initial_orchestrator_def mock_module_simps)

text \<open>
  What a refused creation does, for a new name: the modules are notified of the
  creation up to the first refusal, the descriptor is erased again, every module is
  notified of the deletion, and the value returned is the result of the deletion.
\<close>

lemma CreateApplication_refused:
  assumes g: "GetNextAppId s = Some (i, s1)"
    and noname: "\<not> list_ex (\<lambda>app. GetName (snd app) = cfg_Name app_cfg) (app_map s)"
    and refused: "\<not> list_all (\<lambda>m. OnCreateApplication (module m) (Application_of_config i app_cfg))
                      (modules s)"
  shows "CreateApplication s app_cfg =
     Some (if list_all (\<lambda>m. OnDeleteApplication (module m) (Application_of_config i app_cfg)) (modules s)
           then Succeeded else Failed,
           s\<lparr>last_application_id := i,
             trace := trace s @ create_events (modules s) (Application_of_config i app_cfg) @
                      delete_events (modules s) (Application_of_config i app_cfg)\<rparr>)"
proof -
  let ?a = "Application_of_config i app_cfg"
  from GetNextAppId_Some [OF g]
  have free: "map_find (app_map s) i = None" and s1: "s1 = s\<lparr>last_application_id := i\<rparr>"
    by simp_all
  have id: "GetId ?a = i" "GetName ?a = cfg_Name app_cfg"
    by (simp_all add: GetId_def GetName_def Application_of_config_def)
  have noname1: "\<not> list_ex (\<lambda>app. GetName (snd app) = GetName ?a) (app_map s1)"
    using noname s1 id by simp
  have free1: "map_find (app_map s1) (GetId ?a) = None" using free s1 id by simp
  have c: "CreateApplicationInternal s1 ?a =
     (if list_all (\<lambda>m. OnDeleteApplication (module m) ?a) (modules s) then Succeeded else Failed,
      s\<lparr>last_application_id := i,
        trace := trace s @ create_events (modules s) ?a @ delete_events (modules s) ?a\<rparr>)"
    unfolding CreateApplicationInternal_new [OF noname1 free1] using refused by (simp add: s1)
  show ?thesis
    unfolding CreateApplication_def g by (simp add: c)
qed

text \<open>
  Claim C1 fails on the code. Two modules are registered; the second refuses the
  creation and both accept the deletion. \<open>CreateApplication\<close> notifies both of the
  creation, removes the descriptor, notifies both of the deletion, and then returns
  the result of the deletion, \<open>Succeeded\<close>, where the claim says \<open>Failed\<close>; after this
  \<open>Succeeded\<close> the lookup of the name gives the invalid descriptor.
\<close>

theorem CreateApplication_rollback_returns_Succeeded:
  "map_option fst (CreateApplication two_modules live_cfg) = Some Succeeded \<and>
   map_option (\<lambda>r. app_map (snd r)) (CreateApplication two_modules live_cfg) = Some [] \<and>
   map_option (\<lambda>r. trace (snd r)) (CreateApplication two_modules live_cfg) =
     Some [CreateEv 1 (Application_of_config 1 live_cfg), CreateEv 2 (Application_of_config 1 live_cfg),
           DeleteEv 1 (Application_of_config 1 live_cfg), DeleteEv 2 (Application_of_config 1 live_cfg)] \<and>
   map_option (\<lambda>r. GetApplication (snd r) ''live'') (CreateApplication two_modules live_cfg) =
     Some GetInvalidApplication"
proof -
  have g: "GetNextAppId two_modules = Some (1, two_modules\<lparr>last_application_id := 1\<rparr>)"
    by (simp add: GetNextAppId_free two_modules_eq advance_id_eval map_find_def)
  have c: "CreateApplication two_modules live_cfg =
     Some (Succeeded, two_modules\<lparr>last_application_id := 1,
        trace := [CreateEv 1 (Application_of_config 1 live_cfg), CreateEv 2 (Application_of_config 1 live_cfg),
           DeleteEv 1 (Application_of_config 1 live_cfg), DeleteEv 2 (Application_of_config 1 live_cfg)]\<rparr>)"
    unfolding CreateApplication_def g
    by (simp add: two_modules_eq CreateApplicationInternal_def DeleteApplicationInternal_def
        map_find_def map_emplace_def map_erase_def GetId_def GetName_def Application_of_config_def
        mock_module_simps live_cfg_def)
  show ?thesis
    unfolding c
    by (simp add: two_modules_eq GetApplication_def GetApplicationInternal_def)
qed

section \<open>Claims about the pull coordinator\<close>

lemma delete_events_all:
  "list_all (\<lambda>m. DeleteEv (module_ptr (module m)) a \<in> set (xs @ delete_events ms a @ ys)) ms"
  by (auto simp add: list_all_iff delete_events_def)

text \<open>
  Claim C2. The location resolves to a rule and the rule's scheme has a provider. If no
  application has the name, the table is not full and \<open>PullStream\<close> answers false for
  the descriptor made for this pull, then the call returns false, the table is what
  it was before the call, the name is not found any more, and every registered module
  has received \<open>OnDeleteApplication\<close> for that descriptor during the call. If a valid
  application with the name exists and \<open>PullStream\<close> answers false for it, the call
  returns false and the table is unchanged: the application stays.
\<close>

theorem RequestPullStream_pull_refused:
  assumes "GetUrlListForLocation s app_name stream_name [] = (Some origin, urls)"
    and "GetProviderModuleForScheme s (scheme origin) = Some p"
  shows "(\<not> list_ex (\<lambda>app. GetName (snd app) = app_name) (app_map s) \<and>
          length (app_map s) < unat MaxApplicationId \<and>
          (\<forall>i s1. GetNextAppId s = Some (i, s1) \<longrightarrow>
                  \<not> PullStream p (Application_of_name i app_name) stream_name urls)
          \<longrightarrow> (\<exists>i s' evs. GetNextAppId s = Some (i, s\<lparr>last_application_id := i\<rparr>) \<and>
                 RequestPullStream s app_name stream_name = Some (False, s') \<and>
                 app_map s' = app_map s \<and>
                 GetApplication s' app_name = GetInvalidApplication \<and>
                 trace s' = trace s @ evs \<and>
                 list_all (\<lambda>m. DeleteEv (module_ptr (module m)) (Application_of_name i app_name) \<in> set evs)
                   (modules s))) \<and>
         (IsValid (GetApplicationInternal s app_name) \<and>
          \<not> PullStream p (GetApplicationInternal s app_name) stream_name urls
          \<longrightarrow> (\<exists>s'. RequestPullStream s app_name stream_name = Some (False, s') \<and>
                 app_map s' = app_map s \<and>
                 GetApplication s' app_name = GetApplicationInternal s app_name \<and>
                 trace s' = trace s @ [PullEv (module_ptr p) (GetApplicationInternal s app_name) stream_name urls]))"
proof (intro conjI impI)
  assume new: "\<not> list_ex (\<lambda>app. GetName (snd app) = app_name) (app_map s) \<and>
          length (app_map s) < unat MaxApplicationId \<and>
          (\<forall>i s1. GetNextAppId s = Some (i, s1) \<longrightarrow>
                  \<not> PullStream p (Application_of_name i app_name) stream_name urls)"
  then have noname: "\<not> list_ex (\<lambda>app. GetName (snd app) = app_name) (app_map s)" by simp
  from new GetNextAppId_terminates [of s] obtain i where
    g: "GetNextAppId s = Some (i, s\<lparr>last_application_id := i\<rparr>)" by blast
  let ?a = "Application_of_name i app_name"
  let ?cr = "create_events (modules s) ?a"
  let ?del = "delete_events (modules s) ?a"
  let ?pull = "PullEv (module_ptr p) ?a stream_name urls"
  from new g have refused: "\<not> PullStream p ?a stream_name urls" by blast
  consider (created) "list_all (\<lambda>m. OnCreateApplication (module m) ?a) (modules s)"
    | (rolled_back) "\<not> list_all (\<lambda>m. OnCreateApplication (module m) ?a) (modules s)"
        "list_all (\<lambda>m. OnDeleteApplication (module m) ?a) (modules s)"
    | (failed) "\<not> list_all (\<lambda>m. OnCreateApplication (module m) ?a) (modules s)"
        "\<not> list_all (\<lambda>m. OnDeleteApplication (module m) ?a) (modules s)"
    by blast
  then obtain evs where
    r: "RequestPullStream s app_name stream_name =
          Some (False, s\<lparr>last_application_id := i, trace := trace s @ evs\<rparr>)"
    and d: "list_all (\<lambda>m. DeleteEv (module_ptr (module m)) ?a \<in> set evs) (modules s)"
  proof cases
    case created
    with RequestPullStream_new [OF assms noname g] refused
    have "RequestPullStream s app_name stream_name =
          Some (False, s\<lparr>last_application_id := i, trace := trace s @ (?cr @ [?pull]) @ ?del @ []\<rparr>)"
      by (simp add: Let_def)
    then show ?thesis using delete_events_all that by blast
  next
    case rolled_back
    with RequestPullStream_new [OF assms noname g] refused
    have "RequestPullStream s app_name stream_name =
          Some (False, s\<lparr>last_application_id := i, trace := trace s @ ?cr @ ?del @ [?pull]\<rparr>)"
      by (simp add: Let_def)
    then show ?thesis using delete_events_all that by blast
  next
    case failed
    with RequestPullStream_new [OF assms noname g]
    have "RequestPullStream s app_name stream_name =
          Some (False, s\<lparr>last_application_id := i, trace := trace s @ ?cr @ ?del @ []\<rparr>)"
      by (simp add: Let_def)
    then show ?thesis using delete_events_all that by blast
  qed
  let ?s' = "s\<lparr>last_application_id := i, trace := trace s @ evs\<rparr>"
  have "GetApplication ?s' app_name = GetInvalidApplication"
    using noname by (simp add: GetApplication_def GetApplicationInternal_absent)
  with g r d
  show "\<exists>i s' evs. GetNextAppId s = Some (i, s\<lparr>last_application_id := i\<rparr>) \<and>
                 RequestPullStream s app_name stream_name = Some (False, s') \<and>
                 app_map s' = app_map s \<and>
                 GetApplication s' app_name = GetInvalidApplication \<and>
                 trace s' = trace s @ evs \<and>
                 list_all (\<lambda>m. DeleteEv (module_ptr (module m)) (Application_of_name i app_name) \<in> set evs)
                   (modules s)"
    by (intro exI [of _ i] exI [of _ ?s'] exI [of _ evs]) simp
next
  assume ex: "IsValid (GetApplicationInternal s app_name) \<and>
          \<not> PullStream p (GetApplicationInternal s app_name) stream_name urls"
  let ?s' = "s\<lparr>trace := trace s @ [PullEv (module_ptr p) (GetApplicationInternal s app_name) stream_name urls]\<rparr>"
  from ex RequestPullStream_existing [OF assms]
  have "RequestPullStream s app_name stream_name = Some (False, ?s')" by simp
  moreover have "GetApplication ?s' app_name = GetApplicationInternal s app_name"
    by (simp add: GetApplication_def GetApplicationInternal_def)
  ultimately
  show "\<exists>s'. RequestPullStream s app_name stream_name = Some (False, s') \<and>
                 app_map s' = app_map s \<and>
                 GetApplication s' app_name = GetApplicationInternal s app_name \<and>
                 trace s' = trace s @ [PullEv (module_ptr p) (GetApplicationInternal s app_name) stream_name urls]"
    by (intro exI [of _ ?s']) simp
qed

lemma refusing_state_eq:
  "refusing_state =
     \<lparr>modules = [\<lparr>type = Provider, module = mock_module 1 Provider True True False\<rparr>],
      module_map = (\<lambda>t. [])(Provider := [mock_module 1 Provider True True False]),
      app_map = [], last_application_id = 0, origin_list = [catch_all_rule], trace = []\<rparr>"
  by (simp add: refusing_state_def RegisterModule_def PrepareOriginMap_def initial_orchestrator_def
      mock_module_simps)

text \<open>
  Claim C2 on the fifth and sixth scenarios of the spec: one rule that matches every
  location, one provider that creates and deletes and refuses every pull. The pull
  for the new name \<open>new\<close> returns false, leaves the table empty and the module has the
  deletion of the descriptor with id \<open>1\<close>; the pull for the existing \<open>live\<close> returns
  false and leaves \<open>live\<close> in the table.
\<close>

theorem RequestPullStream_pull_refused_witness:
  "GetUrlListForLocation refusing_state ''new'' ''s'' [] =
     (Some catch_all_rule, [''ovt://origin.example:9000/new/s'']) \<and>
   GetProviderModuleForScheme refusing_state (scheme catch_all_rule) =
     Some (mock_module 1 Provider True True False) \<and>
   app_map refusing_state = [] \<and>
   (\<exists>s'. RequestPullStream refusing_state ''new'' ''s'' = Some (False, s') \<and>
         app_map s' = [] \<and>
         DeleteEv 1 (Application_of_name 1 ''new'') \<in> set (trace s')) \<and>
   GetUrlListForLocation refusing_live_state ''live'' ''s'' [] =
     (Some catch_all_rule, [''ovt://origin.example:9000/live/s'']) \<and>
   GetProviderModuleForScheme refusing_live_state (scheme catch_all_rule) =
     Some (mock_module 1 Provider True True False) \<and>
   GetApplicationInternal refusing_live_state ''live'' = Application_of_config 1 live_cfg \<and>
   (\<exists>s'. RequestPullStream refusing_live_state ''live'' ''s'' = Some (False, s') \<and>
         app_map s' = [(1, Application_of_config 1 live_cfg)])"
proof -
  let ?p = "mock_module 1 Provider True True False"
  have u1: "GetUrlListForLocation refusing_state ''new'' ''s'' [] =
     (Some catch_all_rule, [''ovt://origin.example:9000/new/s''])"
    by (simp add: GetUrlListForLocation_def refusing_state_eq catch_all_rule_def Substring_def)
  have p1: "GetProviderModuleForScheme refusing_state (scheme catch_all_rule) = Some ?p"
    by (simp add: GetProviderModuleForScheme_def GetProviderForScheme_def catch_all_rule_def
        LowerCaseString_ovt refusing_state_eq mock_module_simps)
  have e1: "app_map refusing_state = []" by (simp add: refusing_state_eq)
  have g1: "GetNextAppId refusing_state = Some (1, refusing_state\<lparr>last_application_id := 1\<rparr>)"
    by (simp add: GetNextAppId_free refusing_state_eq advance_id_eval map_find_def)
  have n1: "\<not> list_ex (\<lambda>app. GetName (snd app) = ''new'') (app_map refusing_state) \<and>
          length (app_map refusing_state) < unat MaxApplicationId \<and>
          (\<forall>i s1. GetNextAppId refusing_state = Some (i, s1) \<longrightarrow>
                  \<not> PullStream ?p (Application_of_name i ''new'') ''s'' [''ovt://origin.example:9000/new/s''])"
    by (simp add: e1 unat_MaxApplicationId mock_module_simps)
  from RequestPullStream_pull_refused [OF u1 p1, THEN conjunct1, rule_format, OF n1] g1 e1
  have c1: "\<exists>s'. RequestPullStream refusing_state ''new'' ''s'' = Some (False, s') \<and>
         app_map s' = [] \<and> DeleteEv 1 (Application_of_name 1 ''new'') \<in> set (trace s')"
    by (auto simp add: refusing_state_eq mock_module_simps)
  have u2: "GetUrlListForLocation refusing_live_state ''live'' ''s'' [] =
     (Some catch_all_rule, [''ovt://origin.example:9000/live/s''])"
    by (simp add: GetUrlListForLocation_def refusing_live_state_def refusing_state_eq
        catch_all_rule_def Substring_def)
  have p2: "GetProviderModuleForScheme refusing_live_state (scheme catch_all_rule) = Some ?p"
    by (simp add: GetProviderModuleForScheme_def GetProviderForScheme_def catch_all_rule_def
        LowerCaseString_ovt refusing_live_state_def refusing_state_eq mock_module_simps)
  have a2: "GetApplicationInternal refusing_live_state ''live'' = Application_of_config 1 live_cfg"
    by (simp add: GetApplicationInternal_def refusing_live_state_def GetName_def
        Application_of_config_def live_cfg_def)
  have n2: "IsValid (GetApplicationInternal refusing_live_state ''live'') \<and>
          \<not> PullStream ?p (GetApplicationInternal refusing_live_state ''live'') ''s''
              [''ovt://origin.example:9000/live/s'']"
    by (simp add: a2 IsValid_def Application_of_config_def InvalidApplicationId_def mock_module_simps)
  from RequestPullStream_pull_refused [OF u2 p2, THEN conjunct2, rule_format, OF n2]
  have c2: "\<exists>s'. RequestPullStream refusing_live_state ''live'' ''s'' = Some (False, s') \<and>
         app_map s' = [(1, Application_of_config 1 live_cfg)]"
    by (auto simp add: refusing_live_state_def)
  from u1 p1 e1 c1 u2 p2 a2 c2 show ?thesis by blast
qed

section \<open>Claims about the origin map\<close>

lemma HasPrefix_iff_prefix: "HasPrefix s p \<longleftrightarrow> prefix p s"
  by (induction s p rule: HasPrefix.induct) auto

lemma append_urls_eq:
  "append_urls origin remaining_part urls out =
     out @ map (\<lambda>t. scheme origin @ ''://'' @ t @ remaining_part) urls"
  by (induction urls arbitrary: out) simp_all

lemma find_origin_eq:
  "find_origin origins loc [] =
     (case List.find (\<lambda>rule. prefix (location rule) loc) origins of
        None \<Rightarrow> (None, [])
      | Some rule \<Rightarrow>
          (if url_list rule = [] then None else Some rule,
           map (\<lambda>t. scheme rule @ ''://'' @ t @ drop (length (location rule)) loc) (url_list rule)))"
  by (induction origins) (simp_all add: HasPrefix_iff_prefix append_urls_eq Substring_def Let_def)

lemma splice_state_eq:
  "splice_state =
     \<lparr>modules = [\<lparr>type = Provider, module = mock_module 1 Provider True True True\<rparr>],
      module_map = (\<lambda>t. [])(Provider := [mock_module 1 Provider True True True]),
      app_map = [], last_application_id = 0, origin_list = [splice_rule], trace = []\<rparr>"
  by (simp add: splice_state_def RegisterModule_def PrepareOriginMap_def initial_orchestrator_def
      mock_module_simps)

lemma splice_pull:
  "RequestPullStream splice_state ''app'' ''stream_o'' =
     Some (True, splice_state\<lparr>app_map := [(1, Application_of_name 1 ''app'')],
              last_application_id := 1,
              trace := [CreateEv 1 (Application_of_name 1 ''app''),
                        PullEv 1 (Application_of_name 1 ''app'') ''stream_o''
                          [''ovt://origin.example:9000/another/and_o'']]\<rparr>)"
proof -
  let ?p = "mock_module 1 Provider True True True"
  have u: "GetUrlListForLocation splice_state ''app'' ''stream_o'' [] =
     (Some splice_rule, [''ovt://origin.example:9000/another/and_o''])"
    by (simp add: GetUrlListForLocation_def splice_state_eq splice_rule_def Substring_def)
  have p: "GetProviderModuleForScheme splice_state (scheme splice_rule) = Some ?p"
    by (simp add: GetProviderModuleForScheme_def GetProviderForScheme_def splice_rule_def
        LowerCaseString_ovt splice_state_eq mock_module_simps)
  have n: "\<not> list_ex (\<lambda>app. GetName (snd app) = ''app'') (app_map splice_state)"
    by (simp add: splice_state_eq)
  have g: "GetNextAppId splice_state = Some (1, splice_state\<lparr>last_application_id := 1\<rparr>)"
    by (simp add: GetNextAppId_free splice_state_eq advance_id_eval map_find_def)
  show ?thesis
    unfolding RequestPullStream_new [OF u p n g]
    by (simp add: splice_state_eq mock_module_simps create_events_def map_emplace_def map_find_def Let_def)
qed

text \<open>
  Claim C3. \<open>GetUrlListForLocation\<close> builds the location \<open>/app/stream\<close> from the two
  names, takes the first rule, in the order of the configuration, whose location is a
  prefix of it, and gives one URL per template of that rule: the scheme, \<open>://\<close>, the
  template, and the part of the location after the rule's location. (The rule itself
  is returned only when it has a template.) On the spec's first scenario, one rule and
  an \<open>ovt\<close> provider, \<open>RequestPullStream\<close> for \<open>app\<close> and \<open>stream_o\<close> creates the
  application and calls \<open>PullStream\<close> with the single spliced URL.
\<close>

theorem GetUrlListForLocation_first_prefix_rule:
  "GetUrlListForLocation s app_name stream_name [] =
     (case List.find (\<lambda>rule. prefix (location rule) (''/'' @ app_name @ ''/'' @ stream_name))
             (origin_list s) of
        None \<Rightarrow> (None, [])
      | Some rule \<Rightarrow>
          (if url_list rule = [] then None else Some rule,
           map (\<lambda>t. scheme rule @ ''://'' @ t @
                      drop (length (location rule)) (''/'' @ app_name @ ''/'' @ stream_name))
             (url_list rule))) \<and>
   map_option (\<lambda>r. trace (snd r)) (RequestPullStream splice_state ''app'' ''stream_o'') =
     Some [CreateEv 1 (Application_of_name 1 ''app''),
           PullEv 1 (Application_of_name 1 ''app'') ''stream_o''
             [''ovt://origin.example:9000/another/and_o'']]"
  by (simp add: GetUrlListForLocation_def find_origin_eq splice_pull Let_def split: option.splits)

text \<open>
  Claim C7 as stated fails. The first rule has the location \<open>/app\<close> and no template,
  the second matches every location: for \<open>/app/s\<close> the resolver stops at the first
  rule and returns nothing, while over the map without the first rule it returns the
  second rule and its URL.
\<close>

theorem GetUrlListForLocation_empty_rule_counterexample:
  "GetUrlListForLocation (PrepareOriginMap (initial_orchestrator 0) [empty_rule, catch_all_rule])
     ''app'' ''s'' [] = (None, []) \<and>
   GetUrlListForLocation
     (PrepareOriginMap (initial_orchestrator 0)
        (filter (\<lambda>rule. url_list rule \<noteq> []) [empty_rule, catch_all_rule]))
     ''app'' ''s'' [] = (Some catch_all_rule, [''ovt://origin.example:9000/app/s''])"
  by (simp add: GetUrlListForLocation_def PrepareOriginMap_def initial_orchestrator_def
      empty_rule_def catch_all_rule_def Substring_def)

lemma find_filter_first:
  "(case List.find P xs of None \<Rightarrow> True | Some r \<Rightarrow> Q r) \<Longrightarrow>
   List.find P (filter Q xs) = List.find P xs"
  by (induction xs) (auto split: option.splits)

text \<open>
  Claim C7, amended. A rule without templates is never returned. When the first rule
  whose location is a prefix of the requested location has no template, the resolver
  returns nothing and does not try the later rules. In every other case (the first
  such rule has a template, or no rule matches) the result is the same as over the
  map with every rule without templates removed.
\<close>

theorem GetUrlListForLocation_empty_rules:
  "(fst (GetUrlListForLocation s app_name stream_name []) = Some rule \<longrightarrow> url_list rule \<noteq> []) \<and>
   (List.find (\<lambda>rule. prefix (location rule) (''/'' @ app_name @ ''/'' @ stream_name))
       (origin_list s) = Some first \<and> url_list first = []
    \<longrightarrow> GetUrlListForLocation s app_name stream_name [] = (None, [])) \<and>
   ((case List.find (\<lambda>rule. prefix (location rule) (''/'' @ app_name @ ''/'' @ stream_name))
            (origin_list s) of
       None \<Rightarrow> True | Some first \<Rightarrow> url_list first \<noteq> [])
    \<longrightarrow> GetUrlListForLocation s app_name stream_name [] =
        GetUrlListForLocation
          (s\<lparr>origin_list := filter (\<lambda>rule. url_list rule \<noteq> []) (origin_list s)\<rparr>)
          app_name stream_name [])"
proof (intro conjI impI)
  assume "fst (GetUrlListForLocation s app_name stream_name []) = Some rule"
  then show "url_list rule \<noteq> []"
    by (auto simp add: GetUrlListForLocation_def find_origin_eq Let_def split: option.splits if_splits)
next
  assume "List.find (\<lambda>rule. prefix (location rule) (''/'' @ app_name @ ''/'' @ stream_name))
       (origin_list s) = Some first \<and> url_list first = []"
  then show "GetUrlListForLocation s app_name stream_name [] = (None, [])"
    by (simp add: GetUrlListForLocation_def find_origin_eq Let_def)
next
  assume "case List.find (\<lambda>rule. prefix (location rule) (''/'' @ app_name @ ''/'' @ stream_name))
            (origin_list s) of
       None \<Rightarrow> True | Some first \<Rightarrow> url_list first \<noteq> []"
  then have "List.find (\<lambda>rule. prefix (location rule) (''/'' @ app_name @ ''/'' @ stream_name))
       (filter (\<lambda>rule. url_list rule \<noteq> []) (origin_list s)) =
     List.find (\<lambda>rule. prefix (location rule) (''/'' @ app_name @ ''/'' @ stream_name)) (origin_list s)"
    by (rule find_filter_first)
  then show "GetUrlListForLocation s app_name stream_name [] =
        GetUrlListForLocation
          (s\<lparr>origin_list := filter (\<lambda>rule. url_list rule \<noteq> []) (origin_list s)\<rparr>)
          app_name stream_name []"
    by (simp add: GetUrlListForLocation_def find_origin_eq Let_def)
qed

text \<open>
  The amended claim C7 on the two rules of the counterexample, in both orders. With the
  rule without templates first, \<open>/app/s\<close> resolves to nothing. With the rule that
  matches everything first, the result is that rule's URL, over the whole map and
  over the map without the empty rule.
\<close>

theorem GetUrlListForLocation_empty_rules_witness:
  "List.find (\<lambda>rule. prefix (location rule) (''/'' @ ''app'' @ ''/'' @ ''s''))
       (origin_list (PrepareOriginMap (initial_orchestrator 0) [empty_rule, catch_all_rule])) = Some empty_rule \<and>
   url_list empty_rule = [] \<and>
   GetUrlListForLocation (PrepareOriginMap (initial_orchestrator 0) [empty_rule, catch_all_rule])
     ''app'' ''s'' [] = (None, []) \<and>
   List.find (\<lambda>rule. prefix (location rule) (''/'' @ ''app'' @ ''/'' @ ''s''))
       (origin_list (PrepareOriginMap (initial_orchestrator 0) [catch_all_rule, empty_rule])) = Some catch_all_rule \<and>
   url_list catch_all_rule \<noteq> [] \<and>
   GetUrlListForLocation (PrepareOriginMap (initial_orchestrator 0) [catch_all_rule, empty_rule])
     ''app'' ''s'' [] =
   GetUrlListForLocation (PrepareOriginMap (initial_orchestrator 0) [catch_all_rule])
     ''app'' ''s'' [] \<and>
   fst (GetUrlListForLocation (PrepareOriginMap (initial_orchestrator 0) [catch_all_rule])
     ''app'' ''s'' []) = Some catch_all_rule"
proof -
  let ?s1 = "PrepareOriginMap (initial_orchestrator 0) [empty_rule, catch_all_rule]"
  let ?s2 = "PrepareOriginMap (initial_orchestrator 0) [catch_all_rule, empty_rule]"
  let ?P = "\<lambda>rule. prefix (location rule) (''/'' @ ''app'' @ ''/'' @ ''s'')"
  have f1: "List.find ?P (origin_list ?s1) = Some empty_rule"
    by (simp add: PrepareOriginMap_def empty_rule_def)
  have e1: "url_list empty_rule = []" by (simp add: empty_rule_def)
  have f2: "List.find ?P (origin_list ?s2) = Some catch_all_rule"
    by (simp add: PrepareOriginMap_def catch_all_rule_def)
  have e2: "url_list catch_all_rule \<noteq> []" by (simp add: catch_all_rule_def)
  note thm1 = GetUrlListForLocation_empty_rules [of ?s1 "''app''" "''s''" catch_all_rule empty_rule]
  note thm2 = GetUrlListForLocation_empty_rules [of ?s2 "''app''" "''s''" catch_all_rule catch_all_rule]
  from thm1 f1 e1 have c1: "GetUrlListForLocation ?s1 ''app'' ''s'' [] = (None, [])" by blast
  from thm2 f2 e2 have "GetUrlListForLocation ?s2 ''app'' ''s'' [] =
        GetUrlListForLocation
          (?s2\<lparr>origin_list := filter (\<lambda>rule. url_list rule \<noteq> []) (origin_list ?s2)\<rparr>)
          ''app'' ''s'' []"
    by simp
  then have c2: "GetUrlListForLocation ?s2 ''app'' ''s'' [] =
      GetUrlListForLocation (PrepareOriginMap (initial_orchestrator 0) [catch_all_rule]) ''app'' ''s'' []"
    by (simp add: PrepareOriginMap_def e1 e2)
  have c3: "fst (GetUrlListForLocation (PrepareOriginMap (initial_orchestrator 0) [catch_all_rule])
     ''app'' ''s'' []) = Some catch_all_rule"
    by (simp add: GetUrlListForLocation_def PrepareOriginMap_def catch_all_rule_def Substring_def)
  from f1 e1 c1 f2 e2 c2 c3 show ?thesis by blast
qed

section \<open>Claims about the module registry\<close>

text \<open>
  Claim C5 fails on the code. \<open>GetProviderForUrl\<close> tests the string \<open>url\<close> against the
  null pointer, not the parse result: for a string that does not parse and does not
  compare equal to the null pointer it goes on to \<open>parsed_url->Scheme()\<close> on the null
  parse result.
\<close>

theorem GetProviderForUrl_failed_parse:
  "Parse url = None \<and> \<not> is_nullptr url \<longrightarrow>
   GetProviderForUrl Parse is_nullptr s url = Inl NullPointerDereference"
  by (simp add: GetProviderForUrl_def)

text \<open>
  Claim C5 at the string \<open>not a url\<close>, with a parser that rejects it and a comparison
  that is true of the empty string only.
\<close>

theorem GetProviderForUrl_failed_parse_witness:
  "GetProviderForUrl (\<lambda>u. None) (\<lambda>u. u = []) (initial_orchestrator 0) ''not a url'' =
     Inl NullPointerDereference"
  using GetProviderForUrl_failed_parse
    [of "\<lambda>u. None" "''not a url''" "\<lambda>u. u = []" "initial_orchestrator 0"]
  by simp

lemma erase_first_subset:
  "erase_first p ms = Some ms' \<Longrightarrow> set ms' \<subseteq> set ms"
  by (induction ms arbitrary: ms') (auto split: if_splits)

lemma erase_first_distinct:
  "erase_first p ms = Some ms' \<Longrightarrow> distinct (map (\<lambda>info. module_ptr (module info)) ms) \<Longrightarrow>
   distinct (map (\<lambda>info. module_ptr (module info)) ms') \<and>
   p \<notin> (\<lambda>info. module_ptr (module info)) ` set ms'"
proof (induction ms arbitrary: ms')
  case Nil
  then show ?case by simp
next
  case (Cons info rest)
  show ?case
  proof (cases "module_ptr (module info) = p")
    case True
    with Cons.prems show ?thesis by auto
  next
    case False
    with Cons.prems(1) obtain r where r: "erase_first p rest = Some r" and ms': "ms' = info # r"
      by auto
    from Cons.prems(2) have "distinct (map (\<lambda>info. module_ptr (module info)) rest)" by simp
    from Cons.IH [OF r this] erase_first_subset [OF r] Cons.prems(2) False ms'
    show ?thesis by auto
  qed
qed

lemma RegisterModule_flat_distinct:
  "distinct (map (\<lambda>info. module_ptr (module info)) (modules s)) \<Longrightarrow>
   distinct (map (\<lambda>info. module_ptr (module info)) (modules (snd (RegisterModule s m))))"
  by (auto simp add: RegisterModule_def Let_def list_ex_iff split: option.splits)

lemma UnregisterModule_flat_distinct:
  "distinct (map (\<lambda>info. module_ptr (module info)) (modules s)) \<Longrightarrow>
   distinct (map (\<lambda>info. module_ptr (module info)) (modules (snd (UnregisterModule s m))))"
  by (auto simp add: UnregisterModule_def split: option.splits dest: erase_first_distinct)

lemma UnregisterModule_flat_absent:
  "distinct (map (\<lambda>info. module_ptr (module info)) (modules s)) \<Longrightarrow>
   UnregisterModule s (Some m) = (True, s') \<Longrightarrow>
   module_ptr m \<notin> (\<lambda>info. module_ptr (module info)) ` set (modules s')"
  by (auto simp add: UnregisterModule_def split: option.splits dest: erase_first_distinct)

text \<open>
  Claim C6 fails on the code, in the per-kind view. \<open>UnregisterModule\<close> erases the
  entry of the flat sequence and leaves the per-kind list as it is. After
  \<open>RegisterModule\<close> and a successful \<open>UnregisterModule\<close> of one provider, the flat
  sequence is empty and the provider list still holds the module; registering the
  module again succeeds and the provider list holds it twice.
\<close>

theorem UnregisterModule_keeps_typed_view:
  "fst (UnregisterModule registered_once (Some (mock_module 1 Provider True True True))) = True \<and>
   modules unregistered = [] \<and>
   module_map unregistered Provider = [mock_module 1 Provider True True True] \<and>
   fst (RegisterModule unregistered (Some (mock_module 1 Provider True True True))) = True \<and>
   module_map (snd (RegisterModule unregistered (Some (mock_module 1 Provider True True True)))) Provider =
     [mock_module 1 Provider True True True, mock_module 1 Provider True True True]"
  by (simp add: unregistered_def registered_once_def RegisterModule_def UnregisterModule_def
      initial_orchestrator_def mock_module_simps)

end
